theory Spec2Isabelle
  imports Main "HOL-Library.Word"
begin

section \<open>Direct messages: key provider, codec and route handlers\<close>

text \<open>
  A shallow embedding of \<^verbatim>\<open>src/server/routes/directMessages.js\<close>.

  JavaScript strings are modelled as \<^typ>\<open>string\<close>, standing for the UTF-8 bytes of
  well-formed text; a Node \<^verbatim>\<open>Buffer\<close> is a list of bytes. A thrown exception is the
  \<open>Inl\<close> branch of a sum. The module-level variables \<^verbatim>\<open>ENCRYPTION_KEY\<close> and
  \<^verbatim>\<open>keyWarningShown\<close> are a record that every function using the key takes and
  returns. Console output is not modelled.
\<close>

subsection \<open>Buffers and hexadecimal text\<close>

type_synonym byte = "8 word"
type_synonym buffer = "byte list"

datatype error =
    Error string   \<comment> \<open>\<^verbatim>\<open>new Error(message)\<close> thrown by this module\<close>
  | LibraryError   \<comment> \<open>an exception thrown inside \<^verbatim>\<open>crypto\<close> or \<^verbatim>\<open>zlib\<close>\<close>
  | TypeError      \<comment> \<open>property access on \<^verbatim>\<open>null\<close>\<close>
  | DuplicateKey   \<comment> \<open>the store refusing a second document with the same \<^verbatim>\<open>_id\<close>\<close>

definition hex_digit :: "nat \<Rightarrow> char" where
  "hex_digit n = (if n < 10 then char_of (48 + n) else char_of (87 + n))"

text \<open>The value of a hexadecimal digit, given by its character code.\<close>

definition hex_val :: "nat \<Rightarrow> nat option" where
  "hex_val n =
     (if 48 \<le> n \<and> n \<le> 57 then Some (n - 48)
      else if 97 \<le> n \<and> n \<le> 102 then Some (n - 87)
      else if 65 \<le> n \<and> n \<le> 70 then Some (n - 55)
      else None)"

text \<open>\<^verbatim>\<open>buf.toString('hex')\<close>: two lower-case digits per byte.\<close>

fun toString_hex :: "buffer \<Rightarrow> string" where
  "toString_hex [] = []"
| "toString_hex (b # bs) =
     hex_digit (unat b div 16) # hex_digit (unat b mod 16) # toString_hex bs"

text \<open>
  \<^verbatim>\<open>Buffer.from(s, 'hex')\<close> reads the string by UTF-16 code unit and looks only at the low
  byte of each unit. \<open>utf16_low_bytes\<close> gives these low bytes from the UTF-8 bytes of the
  text: a code point of one to three bytes is one unit, a code point of four bytes is a
  surrogate pair. Node then decodes pairs of digits and stops, without an exception, at
  the first pair that is not two hexadecimal digits; a trailing single unit is dropped.
\<close>

fun utf16_low_bytes :: "nat list \<Rightarrow> nat list" where
  "utf16_low_bytes [] = []"
| "utf16_low_bytes (b # bs) =
     (if b < 0x80 then b # utf16_low_bytes bs
      else if b < 0xE0 then
        (case bs of
           c # r \<Rightarrow> ((b mod 32) * 64 + c mod 64) mod 256 # utf16_low_bytes r
         | [] \<Rightarrow> [])
      else if b < 0xF0 then
        (case bs of
           c # d # r \<Rightarrow>
             ((b mod 16) * 4096 + (c mod 64) * 64 + d mod 64) mod 256 # utf16_low_bytes r
         | _ \<Rightarrow> [])
      else
        (case bs of
           c # d # e # r \<Rightarrow>
             (let cp = (b mod 8) * 262144 + (c mod 64) * 4096 + (d mod 64) * 64 + e mod 64
                       - 65536
              in (cp div 1024) mod 256 # cp mod 256 # utf16_low_bytes r)
         | _ \<Rightarrow> []))"

fun hex_pairs :: "nat list \<Rightarrow> buffer" where
  "hex_pairs (a # b # rest) =
     (case hex_val a of
        None \<Rightarrow> []
      | Some x \<Rightarrow>
          (case hex_val b of
             None \<Rightarrow> []
           | Some y \<Rightarrow> (of_nat (16 * x + y) :: byte) # hex_pairs rest))"
| "hex_pairs _ = []"

definition from_hex :: "string \<Rightarrow> buffer" where
  "from_hex s = hex_pairs (utf16_low_bytes (map of_char s))"

text \<open>\<^verbatim>\<open>s.split(sep)\<close> for a one-character separator: \<open>n\<close> separators give \<open>n + 1\<close> parts.\<close>

fun split :: "char \<Rightarrow> string \<Rightarrow> string list" where
  "split sep [] = [] # []"
| "split sep (c # cs) =
     (if c = sep then [] # split sep cs
      else (case split sep cs of
              [] \<Rightarrow> [c] # []
            | p # ps \<Rightarrow> (c # p) # ps))"

subsection \<open>Key provider\<close>

record key_state =
  ENCRYPTION_KEY :: "buffer option"
  keyWarningShown :: bool

definition initial_key_state :: key_state where
  "initial_key_state = \<lparr>ENCRYPTION_KEY = None, keyWarningShown = False\<rparr>"

definition default_key_hex :: string where
  "default_key_hex = ''0123456789abcdef0123456789abcdef0123456789abcdef0123456789abcdef''"

text \<open>
  \<open>env\<close> is \<^verbatim>\<open>process.env.MESSAGE_ENCRYPTION_KEY\<close>: \<open>None\<close> when unset. The empty string
  is falsy in JavaScript and takes the default branch; a Buffer is an object and is truthy
  whatever its length. The assignment to \<^verbatim>\<open>ENCRYPTION_KEY\<close> precedes the length check, as
  in the source.
\<close>

definition getEncryptionKey :: "string option \<Rightarrow> key_state \<Rightarrow> (error + buffer) \<times> key_state" where
  "getEncryptionKey env st =
     (case ENCRYPTION_KEY st of
        Some k \<Rightarrow> (Inr k, st)
      | None \<Rightarrow>
          (if env \<noteq> None \<and> env \<noteq> Some [] then
             (let k = from_hex (the env);
                  st' = st\<lparr>ENCRYPTION_KEY := Some k\<rparr>
              in if length k \<noteq> 32
                 then (Inl (Error ''Invalid encryption key length''), st')
                 else (Inr k, st'))
           else
             (let st' = (if \<not> keyWarningShown st then st\<lparr>keyWarningShown := True\<rparr> else st);
                  k = from_hex default_key_hex
              in (Inr k, st'\<lparr>ENCRYPTION_KEY := Some k\<rparr>))))"

subsection \<open>Codec\<close>

text \<open>
  The functions of Node's \<^verbatim>\<open>zlib\<close>, \<^verbatim>\<open>crypto\<close> and \<^verbatim>\<open>Buffer\<close> that the codec calls are
  parameters. \<open>cipher key iv data\<close> is \<^verbatim>\<open>createCipheriv('aes-256-cbc', key, iv)\<close> followed by
  \<^verbatim>\<open>update\<close> and \<^verbatim>\<open>final\<close>, \<open>decipher\<close> its counterpart; \<open>None\<close> is a thrown exception.
  \<open>utf8_bytes\<close> is the conversion of a string argument to bytes, \<open>utf8_text\<close> is
  \<^verbatim>\<open>buf.toString()\<close>.
\<close>

record node_lib =
  gzipSync :: "buffer \<Rightarrow> buffer"
  gunzipSync :: "buffer \<Rightarrow> buffer option"
  cipher :: "buffer \<Rightarrow> buffer \<Rightarrow> buffer \<Rightarrow> buffer option"
  decipher :: "buffer \<Rightarrow> buffer \<Rightarrow> buffer \<Rightarrow> buffer option"
  utf8_bytes :: "string \<Rightarrow> buffer"
  utf8_text :: "buffer \<Rightarrow> string"

definition IV_LENGTH :: nat where
  "IV_LENGTH = 16"

text \<open>
  The contract of the library that the round trip relies on: decompression inverts
  compression, decryption inverts encryption under a 32-byte key and a 16-byte IV, and
  text survives the conversion to bytes and back.
\<close>

definition node_contract :: "node_lib \<Rightarrow> bool" where
  "node_contract lib \<longleftrightarrow>
     (\<forall>s. utf8_text lib (utf8_bytes lib s) = s) \<and>
     (\<forall>b. gunzipSync lib (gzipSync lib b) = Some b) \<and>
     (\<forall>k iv b. length k = 32 \<and> length iv = IV_LENGTH \<longrightarrow>
        (\<exists>c. cipher lib k iv b = Some c \<and> decipher lib k iv c = Some b))"

text \<open>The body of the \<^verbatim>\<open>try\<close> block of \<^verbatim>\<open>encryptMessage\<close>, given the resolved key.
  \<open>iv\<close> is the value drawn by \<^verbatim>\<open>crypto.randomBytes(IV_LENGTH)\<close>.\<close>

definition encrypt_with :: "node_lib \<Rightarrow> buffer \<Rightarrow> buffer \<Rightarrow> string \<Rightarrow> error + string" where
  "encrypt_with lib key iv text =
     (let compressed = gzipSync lib (utf8_bytes lib text) in
      case cipher lib key iv compressed of
        None \<Rightarrow> Inl LibraryError
      | Some encrypted \<Rightarrow> Inr (toString_hex iv @ CHR '':'' # toString_hex encrypted))"

definition encryptMessage ::
  "node_lib \<Rightarrow> string option \<Rightarrow> key_state \<Rightarrow> buffer \<Rightarrow> string \<Rightarrow> (error + string) \<times> key_state" where
  "encryptMessage lib env st iv text =
     (case getEncryptionKey env st of
        (Inl e, st') \<Rightarrow> (Inl (Error ''Failed to encrypt message''), st')
      | (Inr key, st') \<Rightarrow>
          (case encrypt_with lib key iv text of
             Inl e \<Rightarrow> (Inl (Error ''Failed to encrypt message''), st')
           | Inr wire \<Rightarrow> (Inr wire, st')))"

text \<open>The body of the \<^verbatim>\<open>try\<close> block of \<^verbatim>\<open>decryptMessage\<close>, given the resolved key.\<close>

definition decrypt_with :: "node_lib \<Rightarrow> buffer \<Rightarrow> string \<Rightarrow> error + string" where
  "decrypt_with lib key encryptedText =
     (let parts = split CHR '':'' encryptedText in
      if length parts \<noteq> 2 then Inl (Error ''Invalid encrypted message format'')
      else
        (let iv = from_hex (parts ! 0);
             encrypted = from_hex (parts ! 1)
         in case decipher lib key iv encrypted of
              None \<Rightarrow> Inl LibraryError
            | Some decrypted \<Rightarrow>
                (case gunzipSync lib decrypted of
                   None \<Rightarrow> Inl LibraryError
                 | Some decompressed \<Rightarrow> Inr (utf8_text lib decompressed))))"

definition decryptMessage ::
  "node_lib \<Rightarrow> string option \<Rightarrow> key_state \<Rightarrow> string \<Rightarrow> (error + string) \<times> key_state" where
  "decryptMessage lib env st encryptedText =
     (case getEncryptionKey env st of
        (Inl e, st') \<Rightarrow> (Inl (Error ''Failed to decrypt message''), st')
      | (Inr key, st') \<Rightarrow>
          (case decrypt_with lib key encryptedText of
             Inl e \<Rightarrow> (Inl (Error ''Failed to decrypt message''), st')
           | Inr plain \<Rightarrow> (Inr plain, st')))"

subsection \<open>Trimming\<close>

text \<open>
  \<^verbatim>\<open>String.prototype.trim\<close> removes the code points of ECMAScript's WhiteSpace and
  LineTerminator productions from both ends. They are listed here by their UTF-8 bytes:
  U+0009 to U+000D, U+0020, U+00A0, U+1680, U+2000 to U+200A, U+2028, U+2029, U+202F,
  U+205F, U+3000 and U+FEFF.
\<close>

definition whitespace :: "string list" where
  "whitespace =
     [ [CHR 0x09], [CHR 0x0A], [CHR 0x0B], [CHR 0x0C], [CHR 0x0D], [CHR 0x20],
      [CHR 0xC2, CHR 0xA0],
      [CHR 0xE1, CHR 0x9A, CHR 0x80],
      [CHR 0xE2, CHR 0x80, CHR 0x80], [CHR 0xE2, CHR 0x80, CHR 0x81],
      [CHR 0xE2, CHR 0x80, CHR 0x82], [CHR 0xE2, CHR 0x80, CHR 0x83],
      [CHR 0xE2, CHR 0x80, CHR 0x84], [CHR 0xE2, CHR 0x80, CHR 0x85],
      [CHR 0xE2, CHR 0x80, CHR 0x86], [CHR 0xE2, CHR 0x80, CHR 0x87],
      [CHR 0xE2, CHR 0x80, CHR 0x88], [CHR 0xE2, CHR 0x80, CHR 0x89],
      [CHR 0xE2, CHR 0x80, CHR 0x8A],
      [CHR 0xE2, CHR 0x80, CHR 0xA8], [CHR 0xE2, CHR 0x80, CHR 0xA9],
      [CHR 0xE2, CHR 0x80, CHR 0xAF],
      [CHR 0xE2, CHR 0x81, CHR 0x9F],
      [CHR 0xE3, CHR 0x80, CHR 0x80],
      [CHR 0xEF, CHR 0xBB, CHR 0xBF]]"

text \<open>Removing, repeatedly, whichever of the patterns the string starts with.\<close>

function strip_leading :: "string list \<Rightarrow> string \<Rightarrow> string" where
  "strip_leading pats s =
     (case find (\<lambda>w. w \<noteq> [] \<and> take (length w) s = w) pats of
        None \<Rightarrow> s
      | Some w \<Rightarrow> strip_leading pats (drop (length w) s))"
  by pat_completeness auto
termination
proof (relation "measure (\<lambda>(pats, s). length s)")
  show "wf (measure (\<lambda>(pats, s). length s))" by simp
next
  fix pats :: "string list" and s w :: string
  assume "find (\<lambda>w. w \<noteq> [] \<and> take (length w) s = w) pats = Some w"
  then have w: "w \<noteq> []" "take (length w) s = w"
    by (auto simp: find_Some_iff)
  then have "s \<noteq> []" by auto
  with w show "((pats, drop (length w) s), (pats, s)) \<in> measure (\<lambda>(pats, s). length s)"
    by simp
qed

definition trimStart :: "string \<Rightarrow> string" where
  "trimStart s = strip_leading whitespace s"

definition trimEnd :: "string \<Rightarrow> string" where
  "trimEnd s = rev (strip_leading (map rev whitespace) (rev s))"

definition trim :: "string \<Rightarrow> string" where
  "trim s = trimEnd (trimStart s)"

subsection \<open>The stores\<close>

text \<open>
  Modelled from the spec: the Mongoose schemas \<^verbatim>\<open>Message\<close> and \<^verbatim>\<open>User\<close> are not among
  the sources. The fields of the two records are those of the spec's data model, which are
  also the fields that the handlers read and write; \<open>message_id\<close> and \<open>user_id\<close> stand for
  \<^verbatim>\<open>_id\<close>, \<open>text'\<close> for \<^verbatim>\<open>text\<close>, and \<open>userId\<close> is the sender.

  The two collections are lists of documents in their natural order; an ObjectId is a
  natural number. The queries of the handlers are list functions. \<open>recipientId\<close> is
  optional: a team message has none.
\<close>

type_synonym object_id = nat

datatype message_type = Direct | Team

record user =
  user_id :: object_id
  name :: string
  email :: string
  role :: string

record message =
  message_id :: object_id
  messageType :: message_type
  userId :: object_id
  recipientId :: "object_id option"
  text' :: string
  timestamp :: int
  readBy :: "object_id list"
  edited :: bool
  editedAt :: "int option"

text \<open>An HTTP response: the status code with the payload, or with the error string.\<close>

datatype 'a response = Success nat 'a | Failure nat string

definition findById :: "user list \<Rightarrow> object_id \<Rightarrow> user option" where
  "findById users i = find (\<lambda>u. user_id u = i) users"

text \<open>\<^verbatim>\<open>populate\<close> replaces a reference by the referenced document, or by \<^verbatim>\<open>null\<close> when
  there is none.\<close>

record populated =
  doc :: message
  userId_doc :: "user option"
  recipientId_doc :: "user option"

definition populate :: "user list \<Rightarrow> message \<Rightarrow> populated" where
  "populate users m =
     \<lparr>doc = m,
      userId_doc = findById users (userId m),
      recipientId_doc = (case recipientId m of None \<Rightarrow> None | Some r \<Rightarrow> findById users r)\<rparr>"

subsection \<open>GET /conversations\<close>

record last_message =
  lm_text :: string
  lm_timestamp :: int
  fromMe :: bool

record conversation =
  conv_user :: user
  lastMessage :: last_message
  unreadCount :: nat

definition involves :: "object_id \<Rightarrow> message \<Rightarrow> bool" where
  "involves me m \<longleftrightarrow>
     messageType m = Direct \<and> (userId m = me \<or> recipientId m = Some me)"

definition unread_from :: "object_id \<Rightarrow> object_id \<Rightarrow> message \<Rightarrow> bool" where
  "unread_from other me m \<longleftrightarrow>
     messageType m = Direct \<and> userId m = other \<and> recipientId m = Some me \<and>
     me \<notin> set (readBy m)"

definition countDocuments :: "(message \<Rightarrow> bool) \<Rightarrow> message list \<Rightarrow> nat" where
  "countDocuments q store = length (filter q store)"

text \<open>The \<^verbatim>\<open>for\<close> loop over the sorted messages. \<^verbatim>\<open>conversationsMap\<close> is a JavaScript
  \<^verbatim>\<open>Map\<close>, which keeps its keys in insertion order: an association list that grows at
  the end.\<close>

fun conversations_loop ::
  "message list \<Rightarrow> object_id \<Rightarrow> populated list \<Rightarrow> (object_id \<times> conversation) list \<Rightarrow>
   error + (object_id \<times> conversation) list" where
  "conversations_loop store me [] conversationsMap = Inr conversationsMap"
| "conversations_loop store me (msg # messages) conversationsMap =
     (case userId_doc msg of
        None \<Rightarrow> Inl TypeError
      | Some sender \<Rightarrow>
          (case (if user_id sender = me then recipientId_doc msg else Some sender) of
             None \<Rightarrow> Inl TypeError
           | Some otherUser \<Rightarrow>
               (if map_of conversationsMap (user_id otherUser) = None then
                  conversations_loop store me messages
                    (conversationsMap @
                      [(user_id otherUser,
                        \<lparr>conv_user = otherUser,
                         lastMessage =
                           \<lparr>lm_text = text' (doc msg),
                            lm_timestamp = timestamp (doc msg),
                            fromMe = (user_id sender = me)\<rparr>,
                         unreadCount =
                           countDocuments (unread_from (user_id otherUser) me) store\<rparr>)])
                else conversations_loop store me messages conversationsMap)))"

definition conversation_messages :: "message list \<Rightarrow> object_id \<Rightarrow> message list" where
  "conversation_messages store me =
     sort_key (\<lambda>m. - timestamp m) (filter (involves me) store)"

definition getConversations ::
  "user list \<Rightarrow> message list \<Rightarrow> object_id \<Rightarrow> conversation list response" where
  "getConversations users store me =
     (case conversations_loop store me
             (map (populate users) (conversation_messages store me)) [] of
        Inl e \<Rightarrow> Failure 500 ''Failed to load conversations''
      | Inr conversationsMap \<Rightarrow> Success 200 (map snd conversationsMap))"

subsection \<open>GET /:userId\<close>

text \<open>
  An element of the \<^verbatim>\<open>messages\<close> array of a response. \<open>view_rest\<close> holds
  \<^verbatim>\<open>messageType\<close> and \<^verbatim>\<open>recipientId\<close>, which a response carries only where it spreads
  the whole stored object (\<^verbatim>\<open>...msg.toObject()\<close>).
\<close>

record message_view =
  view_id :: object_id
  view_text :: string
  view_userId :: "user option"
  view_timestamp :: int
  view_readBy :: "object_id list"
  view_edited :: bool
  view_editedAt :: "int option"
  isFromCurrentUser :: bool
  view_rest :: "(message_type \<times> object_id option) option"

definition placeholder :: string where
  "placeholder = ''[Encrypted message - decryption failed]''"

definition between :: "object_id \<Rightarrow> object_id \<Rightarrow> message \<Rightarrow> bool" where
  "between currentUserId otherUserId m \<longleftrightarrow>
     messageType m = Direct \<and>
     (userId m = currentUserId \<and> recipientId m = Some otherUserId \<or>
      userId m = otherUserId \<and> recipientId m = Some currentUserId)"

text \<open>
  The callback of \<^verbatim>\<open>messages.map\<close>. When \<^verbatim>\<open>decryptMessage\<close> throws, the \<^verbatim>\<open>catch\<close> block
  builds the placeholder object. \<^verbatim>\<open>msg.userId._id\<close> is read in both blocks, so a sender
  that \<^verbatim>\<open>populate\<close> left \<^verbatim>\<open>null\<close> raises a TypeError that leaves the callback.
\<close>

definition decrypt_one ::
  "node_lib \<Rightarrow> string option \<Rightarrow> user list \<Rightarrow> object_id \<Rightarrow> key_state \<Rightarrow> message \<Rightarrow>
   (error + message_view) \<times> key_state" where
  "decrypt_one lib env users currentUserId st msg =
     (case decryptMessage lib env st (text' msg) of
        (Inr plain, st') \<Rightarrow>
          (case findById users (userId msg) of
             None \<Rightarrow> (Inl TypeError, st')
           | Some sender \<Rightarrow>
               (Inr \<lparr>view_id = message_id msg, view_text = plain,
                     view_userId = Some sender, view_timestamp = timestamp msg,
                     view_readBy = readBy msg, view_edited = edited msg,
                     view_editedAt = editedAt msg,
                     isFromCurrentUser = (user_id sender = currentUserId),
                     view_rest = None\<rparr>, st'))
      | (Inl e, st') \<Rightarrow>
          (case findById users (userId msg) of
             None \<Rightarrow> (Inl TypeError, st')
           | Some sender \<Rightarrow>
               (Inr \<lparr>view_id = message_id msg, view_text = placeholder,
                     view_userId = Some sender, view_timestamp = timestamp msg,
                     view_readBy = readBy msg, view_edited = edited msg,
                     view_editedAt = editedAt msg,
                     isFromCurrentUser = (user_id sender = currentUserId),
                     view_rest = Some (messageType msg, recipientId msg)\<rparr>, st')))"

fun decrypt_all ::
  "node_lib \<Rightarrow> string option \<Rightarrow> user list \<Rightarrow> object_id \<Rightarrow> key_state \<Rightarrow> message list \<Rightarrow>
   (error + message_view list) \<times> key_state" where
  "decrypt_all lib env users currentUserId st [] = (Inr [], st)"
| "decrypt_all lib env users currentUserId st (msg # messages) =
     (case decrypt_one lib env users currentUserId st msg of
        (Inl e, st') \<Rightarrow> (Inl e, st')
      | (Inr v, st') \<Rightarrow>
          (case decrypt_all lib env users currentUserId st' messages of
             (Inl e, st'') \<Rightarrow> (Inl e, st'')
           | (Inr vs, st'') \<Rightarrow> (Inr (v # vs), st'')))"

definition thread_messages :: "message list \<Rightarrow> object_id \<Rightarrow> object_id \<Rightarrow> message list" where
  "thread_messages store currentUserId otherUserId =
     sort_key timestamp (filter (between currentUserId otherUserId) store)"

text \<open>The handler returns its response, the message store as it leaves it, and the key
  state.\<close>

definition getMessages ::
  "node_lib \<Rightarrow> string option \<Rightarrow> user list \<Rightarrow> message list \<Rightarrow> key_state \<Rightarrow>
   object_id \<Rightarrow> object_id \<Rightarrow>
   (message_view list \<times> user) response \<times> message list \<times> key_state" where
  "getMessages lib env users store st currentUserId otherUserId =
     (case findById users otherUserId of
        None \<Rightarrow> (Failure 404 ''User not found'', store, st)
      | Some otherUser \<Rightarrow>
          (case decrypt_all lib env users currentUserId st
                  (thread_messages store currentUserId otherUserId) of
             (Inl e, st') \<Rightarrow> (Failure 500 ''Failed to load messages'', store, st')
           | (Inr decryptedMessages, st') \<Rightarrow>
               (Success 200 (decryptedMessages, otherUser), store, st')))"

subsection \<open>POST /:userId\<close>

text \<open>\<^verbatim>\<open>message.save()\<close>: the collection holds one document per \<^verbatim>\<open>_id\<close>.\<close>

definition save :: "message list \<Rightarrow> message \<Rightarrow> error + message list" where
  "save store m =
     (if message_id m \<in> set (map message_id store) then Inl DuplicateKey
      else Inr (store @ [m]))"

text \<open>
  \<open>body_text\<close> is \<^verbatim>\<open>req.body.text\<close>, \<open>None\<close> when the field is absent. \<open>iv\<close> is the value
  drawn by \<^verbatim>\<open>crypto.randomBytes\<close>, \<open>new_id\<close> the ObjectId given to the new document and
  \<open>now\<close> its creation time. Modelled from the spec: the \<^verbatim>\<open>Message\<close> schema is not among
  the sources; a new document has \<open>timestamp\<close> its creation time and no mutation markers.
\<close>

definition sendMessage ::
  "node_lib \<Rightarrow> string option \<Rightarrow> user list \<Rightarrow> message list \<Rightarrow> key_state \<Rightarrow>
   object_id \<Rightarrow> object_id \<Rightarrow> string option \<Rightarrow> buffer \<Rightarrow> object_id \<Rightarrow> int \<Rightarrow>
   message_view response \<times> message list \<times> key_state" where
  "sendMessage lib env users store st currentUserId recipient body_text iv new_id now =
     (if body_text = None \<or> body_text = Some [] \<or> trim (the body_text) = [] then
        (Failure 400 ''Message text is required'', store, st)
      else
        (case findById users recipient of
           None \<Rightarrow> (Failure 404 ''Recipient not found'', store, st)
         | Some r \<Rightarrow>
             (case encryptMessage lib env st iv (trim (the body_text)) of
                (Inl e, st') \<Rightarrow> (Failure 500 ''Failed to send message'', store, st')
              | (Inr encryptedText, st') \<Rightarrow>
                  (let message =
                         \<lparr>message_id = new_id, messageType = Direct,
                          userId = currentUserId, recipientId = Some recipient,
                          text' = encryptedText, timestamp = now,
                          readBy = [currentUserId], edited = False, editedAt = None\<rparr>
                   in case save store message of
                        Inl e \<Rightarrow> (Failure 500 ''Failed to send message'', store, st')
                      | Inr store' \<Rightarrow>
                          (case find (\<lambda>m. message_id m = new_id) store' of
                             None \<Rightarrow> (Failure 500 ''Failed to send message'', store', st')
                           | Some populated \<Rightarrow>
                               (Success 201
                                  \<lparr>view_id = message_id populated,
                                   view_text = trim (the body_text),
                                   view_userId = findById users (userId populated),
                                   view_timestamp = timestamp populated,
                                   view_readBy = readBy populated,
                                   view_edited = edited populated,
                                   view_editedAt = editedAt populated,
                                   isFromCurrentUser = True,
                                   view_rest =
                                     Some (messageType populated, recipientId populated)\<rparr>,
                                store', st'))))))"

subsection \<open>PATCH /:userId/read\<close>

definition addToSet :: "object_id \<Rightarrow> object_id list \<Rightarrow> object_id list" where
  "addToSet x xs = (if x \<in> set xs then xs else xs @ [x])"

text \<open>\<^verbatim>\<open>updateMany\<close> returns the number of documents that the update changed.\<close>

definition updateMany ::
  "(message \<Rightarrow> bool) \<Rightarrow> (message \<Rightarrow> message) \<Rightarrow> message list \<Rightarrow> nat \<times> message list" where
  "updateMany q upd store =
     (length (filter (\<lambda>m. q m \<and> upd m \<noteq> m) store),
      map (\<lambda>m. if q m then upd m else m) store)"

definition markRead ::
  "message list \<Rightarrow> object_id \<Rightarrow> object_id \<Rightarrow> nat response \<times> message list" where
  "markRead store currentUserId otherUserId =
     (case updateMany (unread_from otherUserId currentUserId)
             (\<lambda>m. m\<lparr>readBy := addToSet currentUserId (readBy m)\<rparr>) store of
        (modifiedCount, store') \<Rightarrow> (Success 200 modifiedCount, store'))"

subsection \<open>DELETE /clear/:userId and DELETE /:messageId\<close>

definition deleteMany :: "(message \<Rightarrow> bool) \<Rightarrow> message list \<Rightarrow> nat \<times> message list" where
  "deleteMany q store = (length (filter q store), filter (\<lambda>m. \<not> q m) store)"

fun deleteOne :: "(message \<Rightarrow> bool) \<Rightarrow> message list \<Rightarrow> message list" where
  "deleteOne q [] = []"
| "deleteOne q (m # ms) = (if q m then ms else m # deleteOne q ms)"

function string_of_nat :: "nat \<Rightarrow> string" where
  "string_of_nat n =
     (if n < 10 then [char_of (48 + n)]
      else string_of_nat (n div 10) @ [char_of (48 + n mod 10)])"
  by pat_completeness auto
termination
  by (relation "measure id") auto

definition clearChat ::
  "message list \<Rightarrow> object_id \<Rightarrow> object_id \<Rightarrow> (nat \<times> string) response \<times> message list" where
  "clearChat store currentUserId otherUserId =
     (case deleteMany (between currentUserId otherUserId) store of
        (deletedCount, store') \<Rightarrow>
          (Success 200
             (deletedCount,
              ''Successfully cleared '' @ string_of_nat deletedCount @ '' message(s)''),
           store'))"

definition not_found_or_unauthorized :: string where
  "not_found_or_unauthorized = ''Message not found or you are not authorized to delete it''"

definition deleteMessage ::
  "message list \<Rightarrow> object_id \<Rightarrow> object_id \<Rightarrow> object_id response \<times> message list" where
  "deleteMessage store requester messageId =
     (case find (\<lambda>m. message_id m = messageId \<and> messageType m = Direct \<and>
                      userId m = requester) store of
        None \<Rightarrow> (Failure 404 not_found_or_unauthorized, store)
      | Some message \<Rightarrow>
          (Success 200 messageId, deleteOne (\<lambda>m. message_id m = messageId) store))"

subsection \<open>A small instance of the library\<close>

text \<open>
  An instance of the library interface on which the handlers can be run on concrete
  inputs. It meets \<open>node_contract\<close>; it is not gzip or AES. Its compressor adds the two
  gzip magic bytes, its cipher reverses the data and refuses keys that are not 32 bytes
  and IVs that are not 16 bytes, as \<^verbatim>\<open>aes-256-cbc\<close> does.
\<close>

definition sample_gunzip :: "buffer \<Rightarrow> buffer option" where
  "sample_gunzip b =
     (case b of
        x # y # rest \<Rightarrow> (if x = 0x1f \<and> y = 0x8b then Some rest else None)
      | _ \<Rightarrow> None)"

definition sample_cipher :: "buffer \<Rightarrow> buffer \<Rightarrow> buffer \<Rightarrow> buffer option" where
  "sample_cipher k iv b = (if length k = 32 \<and> length iv = 16 then Some (rev b) else None)"

definition sample_lib :: node_lib where
  "sample_lib =
     \<lparr>gzipSync = (\<lambda>b. 0x1f # 0x8b # b),
      gunzipSync = sample_gunzip,
      cipher = sample_cipher,
      decipher = sample_cipher,
      utf8_bytes = map (\<lambda>c. of_nat (of_char c)),
      utf8_text = map (\<lambda>b. char_of (unat b))\<rparr>"

subsection \<open>Sample data\<close>

definition alice :: user where
  "alice = \<lparr>user_id = 1, name = ''Alice'', email = ''alice@example.com'', role = ''member''\<rparr>"

definition bob :: user where
  "bob = \<lparr>user_id = 2, name = ''Bob'', email = ''bob@example.com'', role = ''member''\<rparr>"

definition carol :: user where
  "carol = \<lparr>user_id = 3, name = ''Carol'', email = ''carol@example.com'', role = ''member''\<rparr>"

text \<open>A direct message as \<^verbatim>\<open>POST /:userId\<close> creates it.\<close>

definition direct_message ::
  "object_id \<Rightarrow> object_id \<Rightarrow> object_id \<Rightarrow> string \<Rightarrow> int \<Rightarrow> message" where
  "direct_message i sender recipient body t =
     \<lparr>message_id = i, messageType = Direct, userId = sender, recipientId = Some recipient,
      text' = body, timestamp = t, readBy = [sender], edited = False, editedAt = None\<rparr>"

text \<open>The wire string that \<open>sample_lib\<close> produces for the text \<^verbatim>\<open>hi\<close> under a zero IV.\<close>

definition hi_wire :: string where
  "hi_wire = ''00000000000000000000000000000000:69688b1f''"

text \<open>
  The library at one recorded point. \<open>hi_gzip\<close> is the gzip stream that zlib produces for
  the text \<^verbatim>\<open>hi\<close>, and \<open>hi_encrypted\<close> is its AES-256-CBC encryption (as OpenSSL computes
  it, with PKCS padding) under the default key of \<open>getEncryptionKey\<close> and a zero IV: two
  blocks of 16 bytes. In \<open>recorded_lib\<close> the functions \<open>cipher\<close>, \<open>decipher\<close> and \<open>gunzipSync\<close>
  have these values at these arguments and throw at every other argument; \<open>gzipSync\<close> is
  given by its value at the text \<^verbatim>\<open>hi\<close>.
\<close>

definition hi_gzip :: buffer where
  "hi_gzip =
     [0x1f, 0x8b, 0x08, 0x00, 0x00, 0x00, 0x00, 0x00, 0x00, 0x03, 0xcb, 0xc8, 0x04, 0x00,
      0xac, 0x2a, 0x93, 0xd8, 0x02, 0x00, 0x00, 0x00]"

definition hi_encrypted :: buffer where
  "hi_encrypted =
     [0x79, 0x29, 0x8a, 0x99, 0xbc, 0x8f, 0xcd, 0x55, 0xd2, 0x78, 0x46, 0xa3, 0xbd, 0xb8,
      0x95, 0x70, 0xbe, 0xd7, 0xd0, 0x12, 0x7d, 0x1e, 0x9d, 0x60, 0x01, 0x5f, 0xbe, 0xb8,
      0x0c, 0x24, 0xe7, 0x9a]"

definition recorded_lib :: node_lib where
  "recorded_lib =
     \<lparr>gzipSync = (\<lambda>b. hi_gzip),
      gunzipSync = (\<lambda>b. if b = hi_gzip then Some [0x68, 0x69] else None),
      cipher =
        (\<lambda>k iv b. if k = from_hex default_key_hex \<and> iv = replicate 16 0 \<and> b = hi_gzip
                  then Some hi_encrypted else None),
      decipher =
        (\<lambda>k iv c. if k = from_hex default_key_hex \<and> iv = replicate 16 0 \<and> c = hi_encrypted
                  then Some hi_gzip else None),
      utf8_bytes = map (\<lambda>c. of_nat (of_char c)),
      utf8_text = map (\<lambda>b. char_of (unat b))\<rparr>"

subsection \<open>Notions used in the statements\<close>

text \<open>
  The key can be resolved to 32 bytes: either a 32-byte key is already memoized, or none
  is and the environment value is unset, empty, or decodes to 32 bytes.
\<close>

definition key_usable :: "string option \<Rightarrow> key_state \<Rightarrow> bool" where
  "key_usable env st \<longleftrightarrow>
     (case ENCRYPTION_KEY st of
        Some k \<Rightarrow> length k = 32
      | None \<Rightarrow> env = None \<or> env = Some [] \<or> length (from_hex (the env)) = 32)"

text \<open>The key state that a call of \<open>getEncryptionKey\<close> leaves.\<close>

definition key_after :: "string option \<Rightarrow> key_state \<Rightarrow> key_state" where
  "key_after env st = snd (getEncryptionKey env st)"

text \<open>The wire format in the spec's words: \<^verbatim>\<open><32-hex-char-iv>:<hex-ciphertext>\<close>.\<close>

definition is_hex :: "char \<Rightarrow> bool" where
  "is_hex c \<longleftrightarrow> hex_val (of_char c) \<noteq> None"

definition wire_shape :: "string \<Rightarrow> bool" where
  "wire_shape s \<longleftrightarrow>
     (case split CHR '':'' s of
        [iv, ct] \<Rightarrow> length iv = 32 \<and> list_all is_hex iv \<and> list_all is_hex ct
      | _ \<Rightarrow> False)"

text \<open>Empty or whitespace-only text: a concatenation of whitespace code points.\<close>

definition whitespace_only :: "string \<Rightarrow> bool" where
  "whitespace_only s \<longleftrightarrow> (\<exists>ws. set ws \<subseteq> set whitespace \<and> s = concat ws)"

definition prefix_free :: "string list \<Rightarrow> bool" where
  "prefix_free pats \<longleftrightarrow>
     (\<forall>p\<in>set pats. \<forall>w\<in>set pats. take (length p) w = p \<longrightarrow> p = w)"

text \<open>The other party of a direct message that involves \<open>me\<close>.\<close>

definition counterpart :: "object_id \<Rightarrow> message \<Rightarrow> object_id option" where
  "counterpart me m = (if userId m = me then recipientId m else Some (userId m))"

text \<open>The requester and every counterpart of the requester's direct messages are in the
  user store.\<close>

definition counterparts_exist :: "user list \<Rightarrow> message list \<Rightarrow> object_id \<Rightarrow> bool" where
  "counterparts_exist users store me \<longleftrightarrow>
     findById users me \<noteq> None \<and>
     (\<forall>m\<in>set store. involves me m \<longrightarrow>
        (\<exists>c. counterpart me m = Some c \<and> findById users c \<noteq> None))"

text \<open>The messages of a list that are the first of their conversation, given the
  counterparts already seen; and the summary that the loop builds from such a message.\<close>

fun first_seen :: "object_id \<Rightarrow> message list \<Rightarrow> object_id list \<Rightarrow> message list" where
  "first_seen me [] seen = []"
| "first_seen me (m # ms) seen =
     (case counterpart me m of
        None \<Rightarrow> first_seen me ms seen
      | Some c \<Rightarrow>
          (if c \<in> set seen then first_seen me ms seen
           else m # first_seen me ms (seen @ [c])))"

definition summary ::
  "user list \<Rightarrow> message list \<Rightarrow> object_id \<Rightarrow> message \<Rightarrow> object_id \<times> conversation" where
  "summary users store me m =
     (let c = the (counterpart me m)
      in (c, \<lparr>conv_user = the (findById users c),
              lastMessage = \<lparr>lm_text = text' m, lm_timestamp = timestamp m,
                             fromMe = (userId m = me)\<rparr>,
              unreadCount = countDocuments (unread_from c me) store\<rparr>))"

text \<open>What a thread response shows for a stored message, decoded in key state \<open>st\<close>.\<close>

definition decoded_text :: "node_lib \<Rightarrow> string option \<Rightarrow> key_state \<Rightarrow> message \<Rightarrow> string" where
  "decoded_text lib env st m =
     (case fst (decryptMessage lib env st (text' m)) of
        Inr plain \<Rightarrow> plain
      | Inl e \<Rightarrow> placeholder)"

section \<open>Properties\<close>

declare strip_leading.simps [simp del]

subsection \<open>Hexadecimal text and splitting\<close>

lemma hex_val_hex_digit: "n < 16 \<Longrightarrow> hex_val (of_char (hex_digit n)) = Some n"
  by (auto simp: hex_val_def hex_digit_def)

lemma hex_digit_ascii: "n < 16 \<Longrightarrow> of_char (hex_digit n) < (128 :: nat)"
  by (auto simp: hex_digit_def)

lemma hex_digit_not_colon: "n < 16 \<Longrightarrow> hex_digit n \<noteq> CHR '':''"
  using hex_val_hex_digit [of n] by (auto simp: hex_val_def)

lemma byte_div_16: "unat (b :: byte) div 16 < 16"
proof -
  have "unat b < 256" using unsigned_less [of b, where ?'a = nat] by simp
  then show ?thesis by simp
qed

text \<open>ASCII text is its own sequence of code units.\<close>

lemma utf16_low_bytes_ascii:
  "\<forall>b\<in>set bs. b < 128 \<Longrightarrow> utf16_low_bytes (bs @ rest) = bs @ utf16_low_bytes rest"
  by (induction bs) simp_all

lemma toString_hex_ascii: "\<forall>n\<in>set (map of_char (toString_hex bs)). n < (128 :: nat)"
  by (induction bs) (simp_all add: hex_digit_ascii byte_div_16)

lemma hex_pairs_toString_hex:
  "hex_pairs (map of_char (toString_hex bs) @ rest) = bs @ hex_pairs rest"
  by (induction bs) (simp_all add: hex_val_hex_digit byte_div_16)

lemma from_hex_toString_hex_append:
  "from_hex (toString_hex bs @ s) = bs @ hex_pairs (utf16_low_bytes (map of_char s))"
  using utf16_low_bytes_ascii [OF toString_hex_ascii, of bs "map of_char s"]
  by (simp add: from_hex_def hex_pairs_toString_hex)

lemma from_hex_toString_hex: "from_hex (toString_hex bs) = bs"
  using from_hex_toString_hex_append [of bs "[]"] by simp

lemma from_hex_garbage:
  assumes "of_char x < (128 :: nat)" and "hex_val (of_char x) = None"
  shows "from_hex (toString_hex bs @ x # rest) = bs"
proof -
  have "utf16_low_bytes (map of_char (x # rest)) =
          of_char x # utf16_low_bytes (map of_char rest)"
    using assms(1) by simp
  moreover have "hex_pairs (of_char x # r) = []" for r
    using assms(2) by (cases r) simp_all
  ultimately show ?thesis
    by (simp add: from_hex_toString_hex_append)
qed

lemma colon_notin_hex: "CHR '':'' \<notin> set (toString_hex bs)"
proof (induction bs)
  case Nil
  show ?case by simp
next
  case (Cons b bs)
  have "hex_digit (unat b div 16) \<noteq> CHR '':''" "hex_digit (unat b mod 16) \<noteq> CHR '':''"
    by (simp_all add: hex_digit_not_colon byte_div_16)
  with Cons show ?case by auto
qed

lemma is_hex_toString_hex: "list_all is_hex (toString_hex bs)"
  by (induction bs) (simp_all add: is_hex_def hex_val_hex_digit byte_div_16)

lemma length_toString_hex: "length (toString_hex bs) = 2 * length bs"
  by (induction bs) simp_all

lemma split_no_sep: "sep \<notin> set xs \<Longrightarrow> split sep xs = [xs]"
  by (induction xs) auto

lemma split_append_sep: "sep \<notin> set xs \<Longrightarrow> split sep (xs @ sep # ys) = xs # split sep ys"
  by (induction xs) auto

lemma length_split: "length (split sep s) = Suc (length (filter (\<lambda>c. c = sep) s))"
  by (induction s) (auto split: list.splits)

lemma split_wire:
  "split CHR '':'' (toString_hex a @ CHR '':'' # toString_hex b) =
     [toString_hex a, toString_hex b]"
  by (simp add: split_append_sep split_no_sep colon_notin_hex)

lemma wire_shape_encoded:
  "length iv = IV_LENGTH \<Longrightarrow> wire_shape (toString_hex iv @ CHR '':'' # toString_hex c)"
  by (simp add: wire_shape_def split_wire is_hex_toString_hex length_toString_hex IV_LENGTH_def)

subsection \<open>Key provider\<close>

lemma default_key_length: "length (from_hex default_key_hex) = 32"
  by code_simp

lemma getEncryptionKey_loaded:
  "ENCRYPTION_KEY st = Some k \<Longrightarrow> getEncryptionKey env st = (Inr k, st)"
  by (simp add: getEncryptionKey_def)

lemma getEncryptionKey_usable:
  assumes "key_usable env st"
  shows "\<exists>k st'. getEncryptionKey env st = (Inr k, st') \<and> length k = 32 \<and>
           ENCRYPTION_KEY st' = Some k"
proof (cases "ENCRYPTION_KEY st")
  case (Some k)
  with assms show ?thesis
    by (simp add: getEncryptionKey_def key_usable_def)
next
  case None
  with assms show ?thesis
    by (auto simp: getEncryptionKey_def key_usable_def Let_def default_key_length)
qed

lemma key_after_loaded: "ENCRYPTION_KEY (key_after env st) \<noteq> None"
  by (auto simp: key_after_def getEncryptionKey_def Let_def split: option.splits)

lemma key_after_idem: "key_after env (key_after env st) = key_after env st"
proof -
  from key_after_loaded [of env st] obtain k where "ENCRYPTION_KEY (key_after env st) = Some k"
    by auto
  from getEncryptionKey_loaded [OF this, of env] show ?thesis
    by (simp add: key_after_def)
qed

lemma key_usable_initial: "key_usable None initial_key_state"
  by (simp add: key_usable_def initial_key_state_def)

text \<open>A configured value that does not decode to 32 bytes makes the first call throw;
  the state it leaves answers every later call with that value's bytes.\<close>

lemma getEncryptionKey_memoizes_invalid:
  assumes "v \<noteq> []" and "length (from_hex v) \<noteq> 32" and "ENCRYPTION_KEY st = None"
  shows "fst (getEncryptionKey (Some v) st) = Inl (Error ''Invalid encryption key length'') \<and>
         getEncryptionKey env (key_after (Some v) st) =
           (Inr (from_hex v), key_after (Some v) st)"
  using assms by (simp add: getEncryptionKey_def key_after_def Let_def)

text \<open>
  C5. A configured key that does not decode to 32 bytes makes key resolution fail on every
  call. The code does not do this: the decoded value is stored in \<open>ENCRYPTION_KEY\<close> before
  its length is checked, so with the value \<^verbatim>\<open>abcd\<close> the first call throws and the second
  call returns the two-byte key.
\<close>

theorem getEncryptionKey_hands_out_invalid_key:
  "getEncryptionKey (Some ''abcd'') initial_key_state =
     (Inl (Error ''Invalid encryption key length''),
      \<lparr>ENCRYPTION_KEY = Some [0xab, 0xcd], keyWarningShown = False\<rparr>) \<and>
   getEncryptionKey (Some ''abcd'')
       \<lparr>ENCRYPTION_KEY = Some [0xab, 0xcd], keyWarningShown = False\<rparr> =
     (Inr [0xab, 0xcd], \<lparr>ENCRYPTION_KEY = Some [0xab, 0xcd], keyWarningShown = False\<rparr>)"
  by code_simp

subsection \<open>Codec\<close>

lemma decrypt_encrypt_with:
  assumes "node_contract lib" "length key = 32" "length iv = IV_LENGTH"
  shows "\<exists>w. encrypt_with lib key iv P = Inr w \<and> decrypt_with lib key w = Inr P"
proof -
  from assms obtain c where c: "cipher lib key iv (gzipSync lib (utf8_bytes lib P)) = Some c"
     "decipher lib key iv c = Some (gzipSync lib (utf8_bytes lib P))"
    unfolding node_contract_def by blast
  have e: "encrypt_with lib key iv P = Inr (toString_hex iv @ CHR '':'' # toString_hex c)"
    by (simp add: encrypt_with_def c)
  have g: "gunzipSync lib (gzipSync lib (utf8_bytes lib P)) = Some (utf8_bytes lib P)"
    "utf8_text lib (utf8_bytes lib P) = P"
    using assms(1) unfolding node_contract_def by blast+
  have "decrypt_with lib key (toString_hex iv @ CHR '':'' # toString_hex c) = Inr P"
    by (simp add: decrypt_with_def split_wire from_hex_toString_hex c g)
  with e show ?thesis by simp
qed

lemma sample_contract: "node_contract sample_lib"
proof -
  have "char_of (unat (of_nat (of_char c) :: byte)) = c" for c :: char
    by (simp add: unat_of_nat)
  then have "map (\<lambda>b. char_of (unat b)) (map (\<lambda>c. of_nat (of_char c) :: byte) s) = s" for s
    by (simp add: comp_def)
  then show ?thesis
    by (simp add: node_contract_def sample_lib_def sample_gunzip_def sample_cipher_def
        IV_LENGTH_def)
qed

lemma sample_iv_length: "length (replicate 16 0 :: buffer) = IV_LENGTH"
  by (simp add: IV_LENGTH_def)

lemma decryptMessage_state: "snd (decryptMessage lib env st t) = key_after env st"
  by (simp add: decryptMessage_def key_after_def split: prod.splits sum.splits)

text \<open>
  C1. Round trip: under a library that meets its contract, a key that resolves to 32 bytes
  and a 16-byte IV, encoding any plaintext succeeds, and decoding the wire string in the
  key state that encoding leaves returns the plaintext.
\<close>

theorem decrypt_encrypt_roundtrip:
  assumes "node_contract lib" and "key_usable env st" and "length iv = IV_LENGTH"
  shows "\<exists>wire st'. encryptMessage lib env st iv P = (Inr wire, st') \<and>
           decryptMessage lib env st' wire = (Inr P, st')"
proof -
  from assms(2) obtain k st' where k: "getEncryptionKey env st = (Inr k, st')"
      "length k = 32" "ENCRYPTION_KEY st' = Some k"
    using getEncryptionKey_usable by blast
  from decrypt_encrypt_with [OF assms(1) k(2) assms(3)] obtain w
    where w: "encrypt_with lib k iv P = Inr w" "decrypt_with lib k w = Inr P"
    by blast
  have "encryptMessage lib env st iv P = (Inr w, st')"
    by (simp add: encryptMessage_def k w)
  moreover have "decryptMessage lib env st' w = (Inr P, st')"
    by (simp add: decryptMessage_def getEncryptionKey_loaded [OF k(3)] w)
  ultimately show ?thesis by blast
qed

theorem decrypt_encrypt_roundtrip_witness:
  "node_contract sample_lib \<and> key_usable None initial_key_state \<and>
   length (replicate 16 0 :: buffer) = IV_LENGTH \<and>
   (\<exists>wire st'.
      encryptMessage sample_lib None initial_key_state (replicate 16 0) ''hi'' =
        (Inr wire, st') \<and>
      decryptMessage sample_lib None st' wire = (Inr ''hi'', st'))"
  using decrypt_encrypt_roundtrip
    [OF sample_contract key_usable_initial sample_iv_length, of "''hi''"]
    sample_contract key_usable_initial sample_iv_length
  by blast

text \<open>The round trip on the sample library, computed.\<close>

lemma encryptMessage_sample:
  "fst (encryptMessage sample_lib None initial_key_state (replicate 16 0) ''hi'') =
     Inr hi_wire"
  by code_simp

lemma decryptMessage_sample:
  "fst (decryptMessage sample_lib None initial_key_state hi_wire) = Inr ''hi''"
  by code_simp

text \<open>ASCII text that is not a digit, and whatever follows it, is ignored after the digits
  of the two parts, under any library.\<close>

lemma decrypt_with_ignores_garbage:
  assumes "of_char x < (128 :: nat)" and "hex_val (of_char x) = None"
    and "CHR '':'' \<notin> set (x # r1)"
    and "of_char y < (128 :: nat)" and "hex_val (of_char y) = None"
    and "CHR '':'' \<notin> set (y # r2)"
  shows "decrypt_with lib key (toString_hex iv @ x # r1 @ CHR '':'' # toString_hex c @ y # r2) =
         decrypt_with lib key (toString_hex iv @ CHR '':'' # toString_hex c)"
proof -
  have "CHR '':'' \<notin> set (toString_hex iv @ x # r1)"
    using assms(3) colon_notin_hex [of iv] by simp
  then have s1: "split CHR '':'' ((toString_hex iv @ x # r1) @ CHR '':'' # toString_hex c @ y # r2) =
      (toString_hex iv @ x # r1) # split CHR '':'' (toString_hex c @ y # r2)"
    by (rule split_append_sep)
  have "CHR '':'' \<notin> set (toString_hex c @ y # r2)"
    using assms(6) colon_notin_hex [of c] by simp
  then have s2: "split CHR '':'' (toString_hex c @ y # r2) = [toString_hex c @ y # r2]"
    by (rule split_no_sep)
  from s1 s2 have "split CHR '':'' (toString_hex iv @ x # r1 @ CHR '':'' # toString_hex c @ y # r2) =
      [toString_hex iv @ x # r1, toString_hex c @ y # r2]"
    by simp
  then show ?thesis
    using assms(1,2,4,5)
    by (simp add: decrypt_with_def split_wire from_hex_garbage from_hex_toString_hex)
qed

text \<open>
  C6, as stated: decoding fails on every string that is not of the shape
  \<^verbatim>\<open><32-hex-char-iv>:<hex-ciphertext>\<close>. It does not. The string below has an IV part of 32
  digits and a \<^verbatim>\<open>g\<close>, and a ciphertext part that ends in \<^verbatim>\<open>zz\<close>; without the \<^verbatim>\<open>g\<close> and the
  \<^verbatim>\<open>zz\<close> it is the wire string of the text \<^verbatim>\<open>hi\<close> under the default key and a zero IV.
  \<^verbatim>\<open>Buffer.from\<close> drops the \<^verbatim>\<open>g\<close> and the \<^verbatim>\<open>zz\<close>, and decoding returns \<^verbatim>\<open>hi\<close>.
\<close>

theorem decryptMessage_accepts_malformed:
  "\<not> wire_shape
       ''00000000000000000000000000000000g:79298a99bc8fcd55d27846a3bdb89570bed7d0127d1e9d60015fbeb80c24e79azz'' \<and>
   fst (decryptMessage recorded_lib None initial_key_state
          ''00000000000000000000000000000000g:79298a99bc8fcd55d27846a3bdb89570bed7d0127d1e9d60015fbeb80c24e79azz'') =
     Inr ''hi''"
  by code_simp

text \<open>
  C6, amended: decoding fails on every string that holds no colon or more than one. The
  \<^verbatim>\<open>try\<close> block raises the format error, and the caller receives the generic decryption
  failure.
\<close>

theorem decryptMessage_rejects_colon_count:
  assumes "length (filter (\<lambda>c. c = CHR '':'') s) \<noteq> 1"
  shows "decrypt_with lib key s = Inl (Error ''Invalid encrypted message format'') \<and>
         fst (decryptMessage lib env st s) = Inl (Error ''Failed to decrypt message'')"
proof -
  from assms have "length (split CHR '':'' s) \<noteq> 2"
    by (simp add: length_split)
  then have d: "decrypt_with lib key s = Inl (Error ''Invalid encrypted message format'')" for key
    by (simp add: decrypt_with_def)
  then have "fst (decryptMessage lib env st s) = Inl (Error ''Failed to decrypt message'')"
    by (simp add: decryptMessage_def split: prod.splits sum.splits)
  with d show ?thesis by simp
qed

theorem decryptMessage_rejects_colon_count_witness:
  "length (filter (\<lambda>c. c = CHR '':'') ''00:11:22'') \<noteq> 1 \<and>
   decrypt_with sample_lib [] ''00:11:22'' = Inl (Error ''Invalid encrypted message format'') \<and>
   fst (decryptMessage sample_lib None initial_key_state ''00:11:22'') =
     Inl (Error ''Failed to decrypt message'')"
  using decryptMessage_rejects_colon_count
    [of "''00:11:22''" sample_lib "[]" None initial_key_state]
  by simp

subsection \<open>Conversation aggregation\<close>

lemma findById_user_id: "findById users i = Some u \<Longrightarrow> user_id u = i"
  by (auto simp: findById_def find_Some_iff)

lemma populate_fields:
  "doc (populate users m) = m"
  "userId_doc (populate users m) = findById users (userId m)"
  "recipientId_doc (populate users m) =
     (case recipientId m of None \<Rightarrow> None | Some r \<Rightarrow> findById users r)"
  by (simp_all add: populate_def)

text \<open>When every counterpart exists, the loop adds the summaries of the messages that
  open a conversation, in their order.\<close>

lemma conversations_loop_first_seen:
  assumes "findById users me \<noteq> None"
    and "\<forall>m\<in>set ms. \<exists>c. counterpart me m = Some c \<and> findById users c \<noteq> None"
  shows "conversations_loop store me (map (populate users) ms) acc =
           Inr (acc @ map (summary users store me) (first_seen me ms (map fst acc)))"
  using assms(2)
proof (induction ms arbitrary: acc)
  case Nil
  show ?case by simp
next
  case (Cons m ms)
  from Cons.prems obtain c ou where c: "counterpart me m = Some c" "findById users c = Some ou"
    by auto
  have ouid: "user_id ou = c" using c(2) by (rule findById_user_id)
  from assms(1) obtain meu where meu: "findById users me = Some meu" by auto
  have meid: "user_id meu = me" using meu by (rule findById_user_id)
  have rest: "\<forall>m\<in>set ms. \<exists>c. counterpart me m = Some c \<and> findById users c \<noteq> None"
    using Cons.prems by simp
  note IH = Cons.IH [OF rest]
  have has: "(map_of acc c = None) = (c \<notin> set (map fst acc))"
    by (simp add: map_of_eq_None_iff)
  show ?case
  proof (cases "userId m = me")
    case True
    with c have r: "recipientId m = Some c" by (simp add: counterpart_def)
    show ?thesis
      using True r c meu meid ouid has
      by (simp add: populate_fields IH summary_def Let_def)
  next
    case False
    with c have s: "userId m = c" by (simp add: counterpart_def)
    show ?thesis
      using False s c ouid has
      by (simp add: populate_fields IH summary_def Let_def)
  qed
qed

text \<open>A message whose counterpart is missing raises the TypeError, wherever it stands.\<close>

lemma conversations_loop_null:
  assumes "findById users me \<noteq> None"
    and "\<exists>m\<in>set ms. \<not> (\<exists>c. counterpart me m = Some c \<and> findById users c \<noteq> None)"
  shows "conversations_loop store me (map (populate users) ms) acc = Inl TypeError"
  using assms(2)
proof (induction ms arbitrary: acc)
  case Nil
  then show ?case by simp
next
  case (Cons m ms)
  from assms(1) obtain meu where meu: "findById users me = Some meu" by auto
  have meid: "user_id meu = me" using meu by (rule findById_user_id)
  show ?case
  proof (cases "\<exists>c. counterpart me m = Some c \<and> findById users c \<noteq> None")
    case True
    then obtain c ou where c: "counterpart me m = Some c" "findById users c = Some ou"
      by auto
    have ouid: "user_id ou = c" using c(2) by (rule findById_user_id)
    from True Cons.prems
    have "\<exists>m\<in>set ms. \<not> (\<exists>c. counterpart me m = Some c \<and> findById users c \<noteq> None)"
      by auto
    note IH = Cons.IH [OF this]
    show ?thesis
    proof (cases "userId m = me")
      case True
      with c have "recipientId m = Some c" by (simp add: counterpart_def)
      with True c meu meid ouid show ?thesis
        by (simp add: populate_fields IH)
    next
      case False
      with c have "userId m = c" by (simp add: counterpart_def)
      with False c ouid show ?thesis
        by (simp add: populate_fields IH)
    qed
  next
    case missing: False
    show ?thesis
    proof (cases "userId m = me")
      case True
      with missing
      have "case recipientId m of None \<Rightarrow> True | Some r \<Rightarrow> findById users r = None"
        by (auto simp: counterpart_def split: option.splits)
      with True meu meid show ?thesis
        by (auto simp: populate_fields split: option.splits)
    next
      case False
      with missing have "findById users (userId m) = None"
        by (simp add: counterpart_def)
      then show ?thesis
        by (simp add: populate_fields)
    qed
  qed
qed

lemma first_seen_subset: "set (first_seen me ms seen) \<subseteq> set ms"
  by (induction ms arbitrary: seen) (auto split: option.splits)

lemma first_seen_counterpart:
  "m \<in> set (first_seen me ms seen) \<Longrightarrow> \<exists>c. counterpart me m = Some c \<and> c \<notin> set seen"
proof (induction ms arbitrary: seen)
  case Nil
  then show ?case by simp
next
  case (Cons x xs)
  show ?case
  proof (cases "counterpart me x")
    case None
    with Cons show ?thesis by simp
  next
    case (Some c)
    show ?thesis
    proof (cases "c \<in> set seen")
      case True
      with Some Cons show ?thesis by simp
    next
      case False
      with Some Cons.prems have "m = x \<or> m \<in> set (first_seen me xs (seen @ [c]))"
        by auto
      then show ?thesis
      proof
        assume "m = x"
        with Some False show ?thesis by simp
      next
        assume "m \<in> set (first_seen me xs (seen @ [c]))"
        from Cons.IH [OF this] show ?thesis by auto
      qed
    qed
  qed
qed

lemma first_seen_keys:
  "set (map (\<lambda>m. the (counterpart me m)) (first_seen me ms seen)) =
     {c. \<exists>m\<in>set ms. counterpart me m = Some c} - set seen"
  by (induction ms arbitrary: seen) (auto split: option.splits)

lemma first_seen_distinct:
  "distinct (map (\<lambda>m. the (counterpart me m)) (first_seen me ms seen))"
proof (induction ms arbitrary: seen)
  case Nil
  show ?case by simp
next
  case (Cons m ms)
  show ?case
  proof (cases "counterpart me m")
    case None
    then show ?thesis using Cons.IH by simp
  next
    case (Some c)
    have "c \<notin> (\<lambda>m. the (counterpart me m)) ` set (first_seen me ms (seen @ [c]))"
      using first_seen_counterpart [of _ me ms "seen @ [c]"] by force
    then show ?thesis using Some Cons.IH by simp
  qed
qed

lemma first_seen_sorted:
  "sorted_wrt (\<lambda>a b. b \<le> a) (map timestamp ms) \<Longrightarrow>
   sorted_wrt (\<lambda>a b. b \<le> a) (map timestamp (first_seen me ms seen))"
proof (induction ms arbitrary: seen)
  case Nil
  show ?case by simp
next
  case (Cons m ms)
  then have tl: "sorted_wrt (\<lambda>a b. b \<le> a) (map timestamp ms)"
    and hd: "\<forall>x\<in>set ms. timestamp x \<le> timestamp m"
    by auto
  have "\<forall>x\<in>set (first_seen me ms s). timestamp x \<le> timestamp m" for s
    using hd first_seen_subset [of me ms s] by blast
  then show ?case using Cons.IH [OF tl] by (auto split: option.splits)
qed

text \<open>In a list sorted newest first, the message that opens a conversation is at least
  as recent as every message of that conversation.\<close>

lemma first_seen_latest:
  assumes "sorted_wrt (\<lambda>a b. b \<le> a) (map timestamp ms)"
    and "m \<in> set (first_seen me ms seen)"
    and "m' \<in> set ms" and "counterpart me m' = counterpart me m"
  shows "timestamp m' \<le> timestamp m"
  using assms
proof (induction ms arbitrary: seen)
  case Nil
  then show ?case by simp
next
  case (Cons x xs)
  have tl: "sorted_wrt (\<lambda>a b. b \<le> a) (map timestamp xs)"
    and hd: "\<forall>y\<in>set xs. timestamp y \<le> timestamp x"
    using Cons.prems(1) by auto
  have later: ?case if m: "m \<in> set (first_seen me xs s)"
      and differ: "\<forall>c. counterpart me m = Some c \<and> c \<notin> set s \<longrightarrow> counterpart me x \<noteq> Some c"
    for s
  proof -
    from first_seen_counterpart [OF m] differ Cons.prems(4) have "m' \<noteq> x" by auto
    with Cons.prems(3) have "m' \<in> set xs" by simp
    from Cons.IH [OF tl m this Cons.prems(4)] show ?thesis .
  qed
  show ?case
  proof (cases "counterpart me x")
    case None
    with Cons.prems(2) have "m \<in> set (first_seen me xs seen)" by simp
    then show ?thesis using None by (intro later) simp_all
  next
    case (Some c)
    show ?thesis
    proof (cases "c \<in> set seen")
      case True
      with Some Cons.prems(2) have "m \<in> set (first_seen me xs seen)" by simp
      then show ?thesis using Some True by (intro later) auto
    next
      case False
      with Some Cons.prems(2) have "m = x \<or> m \<in> set (first_seen me xs (seen @ [c]))"
        by auto
      then show ?thesis
      proof
        assume "m = x"
        with hd Cons.prems(3) show ?thesis by auto
      next
        assume "m \<in> set (first_seen me xs (seen @ [c]))"
        then show ?thesis using Some by (intro later) auto
      qed
    qed
  qed
qed

lemma conversation_messages_set:
  "set (conversation_messages store me) = {m \<in> set store. involves me m}"
  by (auto simp: conversation_messages_def)

lemma conversation_messages_sorted:
  "sorted_wrt (\<lambda>a b. b \<le> a) (map timestamp (conversation_messages store me))"
proof -
  have "sorted (map (\<lambda>m. - timestamp m) (conversation_messages store me))"
    by (simp add: conversation_messages_def)
  then show ?thesis
    by (simp add: sorted_wrt_map)
qed

lemma summary_fields:
  assumes "counterpart me m = Some c" and "findById users c = Some u"
  shows "snd (summary users store me m) =
           \<lparr>conv_user = u,
            lastMessage = \<lparr>lm_text = text' m, lm_timestamp = timestamp m,
                           fromMe = (userId m = me)\<rparr>,
            unreadCount = countDocuments (unread_from c me) store\<rparr>"
  using assms by (simp add: summary_def)

lemma getConversations_first_seen:
  assumes "counterparts_exist users store me"
  shows "getConversations users store me =
           Success 200
             (map (\<lambda>m. snd (summary users store me m))
                (first_seen me (conversation_messages store me) []))"
proof -
  have me_ex: "findById users me \<noteq> None"
    using assms by (simp add: counterparts_exist_def)
  have ok: "\<forall>m\<in>set (conversation_messages store me).
              \<exists>c. counterpart me m = Some c \<and> findById users c \<noteq> None"
    using assms by (auto simp: counterparts_exist_def conversation_messages_set)
  from conversations_loop_first_seen [OF me_ex ok, of store "[]"] show ?thesis
    by (simp add: getConversations_def)
qed

lemma sample_counterparts_exist:
  "counterparts_exist [alice, bob, carol]
     [direct_message 5 1 2 ''x'' 10, direct_message 6 2 1 ''y'' 20,
      direct_message 7 3 1 ''z'' 30] 1"
  by (simp add: counterparts_exist_def findById_def alice_def bob_def carol_def
      direct_message_def involves_def counterpart_def)

text \<open>
  C2, as stated: for every requesting user the aggregator emits one summary per distinct
  counterpart. It does not when a counterpart is missing from the user store: Alice has
  messages from Bob and from a deleted user 3, and her request is answered with status 500
  and no summary, not even Bob's.
\<close>

theorem getConversations_loses_live_conversation:
  "getConversations [alice, bob]
     [direct_message 5 2 1 ''x'' 10, direct_message 6 3 1 ''y'' 20] 1 =
   Failure 500 ''Failed to load conversations''"
  by code_simp

text \<open>
  C2, amended. When the requester and every counterpart are in the user store, the
  aggregator answers 200 with one summary per distinct counterpart of the requester's
  direct messages, ordered by the time of the last message, newest first. The user of a
  summary is the counterpart's document; its last message is a message of that
  conversation that no message of the conversation is more recent than; its unread count
  is the number of direct messages from the counterpart to the requester whose \<open>readBy\<close>
  lacks the requester.
\<close>

theorem getConversations_summaries:
  assumes "counterparts_exist users store me"
  shows "\<exists>convs. getConversations users store me = Success 200 convs \<and>
     distinct (map (\<lambda>cv. user_id (conv_user cv)) convs) \<and>
     set (map (\<lambda>cv. user_id (conv_user cv)) convs) =
       {c. \<exists>m\<in>set store. involves me m \<and> counterpart me m = Some c} \<and>
     sorted_wrt (\<lambda>a b. b \<le> a) (map (\<lambda>cv. lm_timestamp (lastMessage cv)) convs) \<and>
     (\<forall>cv\<in>set convs.
        findById users (user_id (conv_user cv)) = Some (conv_user cv) \<and>
        (\<exists>m\<in>set store. involves me m \<and> counterpart me m = Some (user_id (conv_user cv)) \<and>
           lm_text (lastMessage cv) = text' m \<and>
           lm_timestamp (lastMessage cv) = timestamp m \<and>
           fromMe (lastMessage cv) = (userId m = me)) \<and>
        (\<forall>m\<in>set store. involves me m \<and> counterpart me m = Some (user_id (conv_user cv)) \<longrightarrow>
           timestamp m \<le> lm_timestamp (lastMessage cv)) \<and>
        unreadCount cv =
          length (filter (\<lambda>m. messageType m = Direct \<and> userId m = user_id (conv_user cv) \<and>
                               recipientId m = Some me \<and> me \<notin> set (readBy m)) store))"
proof -
  define ms where "ms = conversation_messages store me"
  define fs where "fs = first_seen me ms []"
  define convs where "convs = map (\<lambda>m. snd (summary users store me m)) fs"
  have ms_set: "set ms = {m \<in> set store. involves me m}"
    unfolding ms_def by (rule conversation_messages_set)
  have ms_sorted: "sorted_wrt (\<lambda>a b. b \<le> a) (map timestamp ms)"
    unfolding ms_def by (rule conversation_messages_sorted)
  have ok: "\<forall>m\<in>set ms. \<exists>c. counterpart me m = Some c \<and> findById users c \<noteq> None"
    using assms ms_set by (auto simp: counterparts_exist_def)
  have resp: "getConversations users store me = Success 200 convs"
    using getConversations_first_seen [OF assms] by (simp add: convs_def fs_def ms_def)
  have fs_ms: "set fs \<subseteq> set ms"
    unfolding fs_def by (rule first_seen_subset)
  have entry: "\<exists>c u. counterpart me m = Some c \<and> findById users c = Some u \<and> user_id u = c \<and>
                 snd (summary users store me m) =
                   \<lparr>conv_user = u,
                    lastMessage = \<lparr>lm_text = text' m, lm_timestamp = timestamp m,
                                   fromMe = (userId m = me)\<rparr>,
                    unreadCount = countDocuments (unread_from c me) store\<rparr>"
    if "m \<in> set fs" for m
  proof -
    from that fs_ms ok obtain c u where cu: "counterpart me m = Some c" "findById users c = Some u"
      by blast
    from summary_fields [OF cu] findById_user_id [OF cu(2)] cu show ?thesis by blast
  qed
  have key: "user_id (conv_user (snd (summary users store me m))) = the (counterpart me m)"
    if "m \<in> set fs" for m
    using entry [OF that] by auto
  have ts: "lm_timestamp (lastMessage (snd (summary users store me m))) = timestamp m" for m
    by (simp add: summary_def Let_def)
  have keys: "map (\<lambda>cv. user_id (conv_user cv)) convs = map (\<lambda>m. the (counterpart me m)) fs"
    unfolding convs_def using key by (simp add: comp_def)
  have tss: "map (\<lambda>cv. lm_timestamp (lastMessage cv)) convs = map timestamp fs"
    unfolding convs_def using ts by (simp add: comp_def)
  have c1: "distinct (map (\<lambda>cv. user_id (conv_user cv)) convs)"
    unfolding keys fs_def by (rule first_seen_distinct)
  have "set (map (\<lambda>m. the (counterpart me m)) fs) =
          {c. \<exists>m\<in>set ms. counterpart me m = Some c}"
    unfolding fs_def using first_seen_keys [of me ms "[]"] by simp
  then have c2: "set (map (\<lambda>cv. user_id (conv_user cv)) convs) =
       {c. \<exists>m\<in>set store. involves me m \<and> counterpart me m = Some c}"
    unfolding keys using ms_set by auto
  have c3: "sorted_wrt (\<lambda>a b. b \<le> a) (map (\<lambda>cv. lm_timestamp (lastMessage cv)) convs)"
    unfolding tss fs_def using ms_sorted by (rule first_seen_sorted)
  have c4: "findById users (user_id (conv_user cv)) = Some (conv_user cv) \<and>
        (\<exists>m\<in>set store. involves me m \<and> counterpart me m = Some (user_id (conv_user cv)) \<and>
           lm_text (lastMessage cv) = text' m \<and>
           lm_timestamp (lastMessage cv) = timestamp m \<and>
           fromMe (lastMessage cv) = (userId m = me)) \<and>
        (\<forall>m\<in>set store. involves me m \<and> counterpart me m = Some (user_id (conv_user cv)) \<longrightarrow>
           timestamp m \<le> lm_timestamp (lastMessage cv)) \<and>
        unreadCount cv =
          length (filter (\<lambda>m. messageType m = Direct \<and> userId m = user_id (conv_user cv) \<and>
                               recipientId m = Some me \<and> me \<notin> set (readBy m)) store)"
    if cv: "cv \<in> set convs" for cv
  proof -
    from cv obtain m0 where m0: "m0 \<in> set fs" "cv = snd (summary users store me m0)"
      unfolding convs_def by auto
    from entry [OF m0(1)] m0(2) obtain c u where
      cu: "counterpart me m0 = Some c" "findById users c = Some u" "user_id u = c"
      and cv_eq: "cv = \<lparr>conv_user = u,
                    lastMessage = \<lparr>lm_text = text' m0, lm_timestamp = timestamp m0,
                                   fromMe = (userId m0 = me)\<rparr>,
                    unreadCount = countDocuments (unread_from c me) store\<rparr>"
      by auto
    have m0_store: "m0 \<in> set store" "involves me m0"
      using m0(1) fs_ms ms_set by auto
    have p1: "findById users (user_id (conv_user cv)) = Some (conv_user cv)"
      using cu cv_eq by simp
    have p2: "\<exists>m\<in>set store. involves me m \<and> counterpart me m = Some (user_id (conv_user cv)) \<and>
           lm_text (lastMessage cv) = text' m \<and>
           lm_timestamp (lastMessage cv) = timestamp m \<and>
           fromMe (lastMessage cv) = (userId m = me)"
      using m0_store cu cv_eq by (intro bexI [of _ m0]) simp_all
    have p3: "timestamp m \<le> lm_timestamp (lastMessage cv)"
      if "m \<in> set store" "involves me m" "counterpart me m = Some (user_id (conv_user cv))" for m
    proof -
      have "m \<in> set ms" using that ms_set by simp
      moreover have "counterpart me m = counterpart me m0"
        using that(3) cu cv_eq by simp
      ultimately have "timestamp m \<le> timestamp m0"
        using first_seen_latest [OF ms_sorted, of m0 me "[]" m] m0(1) by (simp add: fs_def)
      then show ?thesis by (simp add: cv_eq)
    qed
    have p4: "unreadCount cv =
          length (filter (\<lambda>m. messageType m = Direct \<and> userId m = user_id (conv_user cv) \<and>
                               recipientId m = Some me \<and> me \<notin> set (readBy m)) store)"
      using cu by (simp add: cv_eq countDocuments_def unread_from_def [abs_def])
    from p1 p2 p3 p4 show ?thesis by blast
  qed
  from resp c1 c2 c3 c4 show ?thesis by blast
qed

theorem getConversations_summaries_witness:
  "counterparts_exist [alice, bob, carol]
     [direct_message 5 1 2 ''x'' 10, direct_message 6 2 1 ''y'' 20,
      direct_message 7 3 1 ''z'' 30] 1 \<and>
   (\<exists>convs.
      getConversations [alice, bob, carol]
        [direct_message 5 1 2 ''x'' 10, direct_message 6 2 1 ''y'' 20,
         direct_message 7 3 1 ''z'' 30] 1 = Success 200 convs \<and>
      map (\<lambda>cv. user_id (conv_user cv)) convs = [3, 2] \<and>
      map (\<lambda>cv. lm_timestamp (lastMessage cv)) convs = [30, 20] \<and>
      map unreadCount convs = [1, 1] \<and>
      distinct (map (\<lambda>cv. user_id (conv_user cv)) convs) \<and>
      sorted_wrt (\<lambda>a b. b \<le> a) (map (\<lambda>cv. lm_timestamp (lastMessage cv)) convs))"
proof -
  let ?users = "[alice, bob, carol]"
  let ?store = "[direct_message 5 1 2 ''x'' 10, direct_message 6 2 1 ''y'' 20,
      direct_message 7 3 1 ''z'' 30]"
  from getConversations_summaries [OF sample_counterparts_exist]
  obtain convs where convs:
    "getConversations ?users ?store 1 = Success 200 convs"
    "distinct (map (\<lambda>cv. user_id (conv_user cv)) convs)"
    "sorted_wrt (\<lambda>a b. b \<le> a) (map (\<lambda>cv. lm_timestamp (lastMessage cv)) convs)"
    by blast
  have "getConversations ?users ?store 1 =
      Success 200
        [\<lparr>conv_user = carol,
          lastMessage = \<lparr>lm_text = ''z'', lm_timestamp = 30, fromMe = False\<rparr>,
          unreadCount = 1\<rparr>,
         \<lparr>conv_user = bob,
          lastMessage = \<lparr>lm_text = ''y'', lm_timestamp = 20, fromMe = False\<rparr>,
          unreadCount = 1\<rparr>]"
    by code_simp
  with convs(1) have
    "convs =
        [\<lparr>conv_user = carol,
          lastMessage = \<lparr>lm_text = ''z'', lm_timestamp = 30, fromMe = False\<rparr>,
          unreadCount = 1\<rparr>,
         \<lparr>conv_user = bob,
          lastMessage = \<lparr>lm_text = ''y'', lm_timestamp = 20, fromMe = False\<rparr>,
          unreadCount = 1\<rparr>]"
    by simp
  then have vals: "map (\<lambda>cv. user_id (conv_user cv)) convs = [3, 2]"
    "map (\<lambda>cv. lm_timestamp (lastMessage cv)) convs = [30, 20]"
    "map unreadCount convs = [1, 1]"
    by (simp_all add: carol_def bob_def)
  from convs vals have
    "\<exists>convs.
      getConversations ?users ?store 1 = Success 200 convs \<and>
      map (\<lambda>cv. user_id (conv_user cv)) convs = [3, 2] \<and>
      map (\<lambda>cv. lm_timestamp (lastMessage cv)) convs = [30, 20] \<and>
      map unreadCount convs = [1, 1] \<and>
      distinct (map (\<lambda>cv. user_id (conv_user cv)) convs) \<and>
      sorted_wrt (\<lambda>a b. b \<le> a) (map (\<lambda>cv. lm_timestamp (lastMessage cv)) convs)"
    by (intro exI [of _ convs] conjI)
  with sample_counterparts_exist show ?thesis by (rule conjI)
qed

text \<open>The examples of the spec, computed: of two messages at times 10 and 20 the summary
  shows the one at 20; three unread messages count as 3, and as 0 once marked read.\<close>

lemma getConversations_latest_example:
  "getConversations [alice, bob]
     [direct_message 5 1 2 ''x'' 10, direct_message 6 2 1 ''y'' 20] 1 =
   Success 200
     [\<lparr>conv_user = bob,
       lastMessage = \<lparr>lm_text = ''y'', lm_timestamp = 20, fromMe = False\<rparr>,
       unreadCount = 1\<rparr>]"
  by code_simp

lemma getConversations_unread_example:
  "getConversations [alice, bob]
     [direct_message 5 1 2 ''x'' 10, direct_message 6 1 2 ''y'' 20,
      direct_message 7 1 2 ''z'' 30] 2 =
   Success 200
     [\<lparr>conv_user = alice,
       lastMessage = \<lparr>lm_text = ''z'', lm_timestamp = 30, fromMe = False\<rparr>,
       unreadCount = 3\<rparr>] \<and>
   getConversations [alice, bob]
     (snd (markRead
        [direct_message 5 1 2 ''x'' 10, direct_message 6 1 2 ''y'' 20,
         direct_message 7 1 2 ''z'' 30] 2 1)) 2 =
   Success 200
     [\<lparr>conv_user = alice,
       lastMessage = \<lparr>lm_text = ''z'', lm_timestamp = 30, fromMe = False\<rparr>,
       unreadCount = 0\<rparr>]"
  by code_simp

text \<open>
  C7, as stated: aggregation still answers successfully when a counterpart has been
  deleted from the user store. It does not: with Bob deleted, his message to Alice makes
  the loop read a property of \<^verbatim>\<open>null\<close>, and Alice's request is answered with status 500.
\<close>

theorem getConversations_deleted_counterpart_fails:
  "getConversations [alice] [direct_message 6 2 1 ''y'' 20] 1 =
     Failure 500 ''Failed to load conversations''"
  by code_simp

text \<open>
  C7, amended: there is no null handling in the loop. For a requester who is in the user
  store, the handler answers 200 when every counterpart exists; when one is missing, the
  TypeError is caught by the handler's \<^verbatim>\<open>catch\<close> and the answer is status 500 with the error
  \<^verbatim>\<open>Failed to load conversations\<close>.
\<close>

theorem getConversations_missing_counterpart:
  assumes "findById users me \<noteq> None"
  shows "(counterparts_exist users store me \<longrightarrow>
            (\<exists>convs. getConversations users store me = Success 200 convs)) \<and>
         (\<not> counterparts_exist users store me \<longrightarrow>
            getConversations users store me = Failure 500 ''Failed to load conversations'')"
proof (intro conjI impI)
  assume "counterparts_exist users store me"
  from getConversations_first_seen [OF this]
  show "\<exists>convs. getConversations users store me = Success 200 convs" by blast
next
  assume "\<not> counterparts_exist users store me"
  with assms have "\<exists>m\<in>set (conversation_messages store me).
      \<not> (\<exists>c. counterpart me m = Some c \<and> findById users c \<noteq> None)"
    by (auto simp: counterparts_exist_def conversation_messages_set)
  from conversations_loop_null [OF assms this]
  show "getConversations users store me = Failure 500 ''Failed to load conversations''"
    by (simp add: getConversations_def)
qed

theorem getConversations_missing_counterpart_witness:
  "findById [alice] 1 \<noteq> None \<and>
   \<not> counterparts_exist [alice] [direct_message 5 1 2 ''x'' 10] 1 \<and>
   getConversations [alice] [direct_message 5 1 2 ''x'' 10] 1 =
     Failure 500 ''Failed to load conversations''"
proof -
  have a: "findById [alice] 1 \<noteq> None"
    by (simp add: findById_def alice_def)
  have b: "\<not> counterparts_exist [alice] [direct_message 5 1 2 ''x'' 10] 1"
    by (simp add: counterparts_exist_def findById_def alice_def direct_message_def
        involves_def counterpart_def)
  from getConversations_missing_counterpart [OF a, of "[direct_message 5 1 2 ''x'' 10]"] a b
  show ?thesis by blast
qed

subsection \<open>Trimming\<close>

lemma strip_leading_Nil: "strip_leading pats [] = []"
proof -
  have "find (\<lambda>w. w \<noteq> [] \<and> take (length w) [] = w) pats = None"
    by (auto simp: find_None_iff)
  then show ?thesis by (simp add: strip_leading.simps [of pats "[]"])
qed

text \<open>What is stripped is a concatenation of patterns.\<close>

lemma strip_leading_decomp:
  "\<exists>ws. set ws \<subseteq> set pats \<and> s = concat ws @ strip_leading pats s"
proof (induction pats s rule: strip_leading.induct)
  case (1 pats s)
  show ?case
  proof (cases "find (\<lambda>w. w \<noteq> [] \<and> take (length w) s = w) pats")
    case None
    then have "strip_leading pats s = s" by (simp add: strip_leading.simps [of pats s])
    then have "set [] \<subseteq> set pats \<and> s = concat [] @ strip_leading pats s" by simp
    then show ?thesis by blast
  next
    case (Some w)
    then have w: "w \<in> set pats" "take (length w) s = w"
      by (auto simp: find_Some_iff)
    from "1.IH" [OF Some] obtain ws where
      ws: "set ws \<subseteq> set pats"
          "drop (length w) s = concat ws @ strip_leading pats (drop (length w) s)"
      by blast
    have eq: "strip_leading pats s = strip_leading pats (drop (length w) s)"
      using Some by (simp add: strip_leading.simps [of pats s])
    have "s = w @ drop (length w) s"
      using w(2) append_take_drop_id [of "length w" s] by simp
    then have "s = concat (w # ws) @ strip_leading pats s"
      using ws(2) eq by simp
    moreover have "set (w # ws) \<subseteq> set pats" using w(1) ws(1) by simp
    ultimately show ?thesis by blast
  qed
qed

text \<open>No pattern is a proper prefix of another, so the pattern found at the head of
  \<open>w @ r\<close> is \<open>w\<close>.\<close>

lemma strip_leading_pattern:
  assumes "prefix_free pats" and "w \<in> set pats" and "w \<noteq> []"
  shows "strip_leading pats (w @ r) = strip_leading pats r"
proof -
  have "\<exists>p. find (\<lambda>p. p \<noteq> [] \<and> take (length p) (w @ r) = p) pats = Some p"
  proof (cases "find (\<lambda>p. p \<noteq> [] \<and> take (length p) (w @ r) = p) pats")
    case None
    with assms(2,3) show ?thesis by (auto simp: find_None_iff)
  next
    case (Some p)
    then show ?thesis by simp
  qed
  then obtain p where f: "find (\<lambda>p. p \<noteq> [] \<and> take (length p) (w @ r) = p) pats = Some p"
    by blast
  then have p: "p \<in> set pats" "p \<noteq> []" "take (length p) (w @ r) = p"
    by (auto simp: find_Some_iff)
  have "p = w"
  proof (cases "length p \<le> length w")
    case True
    with p(3) have "take (length p) w = p" by simp
    with assms(1) p(1) assms(2) show ?thesis by (auto simp: prefix_free_def)
  next
    case False
    then have "take (length w) p = take (length w) (take (length p) (w @ r))"
      using p(3) by simp
    also have "\<dots> = w" using False by (simp add: min_def)
    finally have "take (length w) p = w" .
    with assms(1) p(1) assms(2) show ?thesis by (auto simp: prefix_free_def)
  qed
  with f show ?thesis by (simp add: strip_leading.simps [of pats "w @ r"])
qed

lemma strip_leading_concat:
  assumes "prefix_free pats" and "set ws \<subseteq> set pats"
  shows "strip_leading pats (concat ws) = []"
  using assms(2)
proof (induction ws)
  case Nil
  show ?case by (simp add: strip_leading_Nil)
next
  case (Cons w ws)
  show ?case
  proof (cases "w = []")
    case True
    with Cons show ?thesis by simp
  next
    case False
    with Cons.prems strip_leading_pattern [OF assms(1), of w "concat ws"] Cons.IH
    show ?thesis by simp
  qed
qed

lemma prefix_free_whitespace: "prefix_free whitespace"
  by (simp add: prefix_free_def whitespace_def)

lemma trim_Nil: "trim [] = []"
  by (simp add: trim_def trimStart_def trimEnd_def strip_leading_Nil)

text \<open>\<open>trim\<close> leaves nothing exactly of the strings made of whitespace.\<close>

lemma trim_empty_iff: "trim s = [] \<longleftrightarrow> whitespace_only s"
proof
  assume "whitespace_only s"
  then obtain ws where "set ws \<subseteq> set whitespace" "s = concat ws"
    by (auto simp: whitespace_only_def)
  with strip_leading_concat [OF prefix_free_whitespace] have "trimStart s = []"
    by (simp add: trimStart_def)
  then show "trim s = []"
    by (simp add: trim_def trimEnd_def strip_leading_Nil)
next
  assume "trim s = []"
  then have e: "strip_leading (map rev whitespace) (rev (trimStart s)) = []"
    by (simp add: trim_def trimEnd_def)
  from strip_leading_decomp [of "map rev whitespace" "rev (trimStart s)"] e
  obtain ws' where ws': "set ws' \<subseteq> set (map rev whitespace)" "rev (trimStart s) = concat ws'"
    by auto
  from strip_leading_decomp [of whitespace s] obtain ws0 where
    ws0: "set ws0 \<subseteq> set whitespace" "s = concat ws0 @ trimStart s"
    by (auto simp: trimStart_def)
  have "trimStart s = rev (concat ws')" using ws'(2) by (metis rev_rev_ident)
  also have "\<dots> = concat (map rev (rev ws'))" by (simp add: rev_concat)
  finally have "s = concat (ws0 @ map rev (rev ws'))" using ws0(2) by simp
  moreover have "set (ws0 @ map rev (rev ws')) \<subseteq> set whitespace"
    using ws0(1) ws'(1) by auto
  ultimately show "whitespace_only s" unfolding whitespace_only_def by blast
qed

lemma trim_example: "trim '' hi '' = ''hi''"
  by code_simp

subsection \<open>Reading a thread\<close>

lemma decrypt_one_present:
  assumes "findById users (userId m) \<noteq> None"
  shows "\<exists>v. decrypt_one lib env users me st m = (Inr v, key_after env st) \<and>
           view_id v = message_id m \<and> view_text v = decoded_text lib env st m"
proof -
  from assms obtain sender where s: "findById users (userId m) = Some sender" by auto
  obtain r st' where d: "decryptMessage lib env st (text' m) = (r, st')"
    by (cases "decryptMessage lib env st (text' m)")
  with decryptMessage_state [of lib env st "text' m"] have st': "st' = key_after env st"
    by simp
  show ?thesis
    by (cases r) (simp_all add: decrypt_one_def d s st' decoded_text_def)
qed

lemma decrypt_all_present:
  assumes "\<forall>m\<in>set ms. findById users (userId m) \<noteq> None"
  shows "\<exists>vs st'. decrypt_all lib env users me st ms = (Inr vs, st') \<and>
           map view_id vs = map message_id ms \<and>
           map view_text vs =
             (case ms of
                [] \<Rightarrow> []
              | m # rest \<Rightarrow>
                  decoded_text lib env st m #
                  map (decoded_text lib env (key_after env st)) rest)"
  using assms
proof (induction ms arbitrary: st)
  case Nil
  show ?case by simp
next
  case (Cons m ms)
  from Cons.prems have "findById users (userId m) \<noteq> None" by simp
  from decrypt_one_present [OF this, of lib env me st] obtain v where
    v: "decrypt_one lib env users me st m = (Inr v, key_after env st)"
       "view_id v = message_id m" "view_text v = decoded_text lib env st m"
    by blast
  from Cons.prems have "\<forall>m\<in>set ms. findById users (userId m) \<noteq> None" by simp
  from Cons.IH [OF this, of "key_after env st"] obtain vs st' where
    vs: "decrypt_all lib env users me (key_after env st) ms = (Inr vs, st')"
        "map view_id vs = map message_id ms"
        "map view_text vs =
           (case ms of
              [] \<Rightarrow> []
            | m # rest \<Rightarrow>
                decoded_text lib env (key_after env st) m #
                map (decoded_text lib env (key_after env (key_after env st))) rest)"
    by blast
  have "map view_text vs = map (decoded_text lib env (key_after env st)) ms"
    using vs(3) by (cases ms) (simp_all add: key_after_idem)
  with v vs(1,2) show ?case by simp
qed

lemma sample_users_present:
  "findById [alice, bob] 1 \<noteq> None" "findById [alice, bob] 2 = Some bob"
  by (simp_all add: findById_def alice_def bob_def)

text \<open>
  C3. For a requester who is in the user store and an existing other user, the thread
  request answers 200 with one element per stored message of the thread, in the thread's
  order. The text of each element is the decoded plaintext of its own message, or the
  placeholder when decoding that message fails; the first message is decoded in the key
  state of the request, the others in the state that a key resolution leaves. The message
  store is returned as it was.
\<close>

theorem getMessages_placeholder:
  assumes "findById users me \<noteq> None" and "findById users other = Some otherUser"
  shows "\<exists>views st'.
           getMessages lib env users store st me other =
             (Success 200 (views, otherUser), store, st') \<and>
           map view_id views = map message_id (thread_messages store me other) \<and>
           map view_text views =
             (case thread_messages store me other of
                [] \<Rightarrow> []
              | m # rest \<Rightarrow>
                  decoded_text lib env st m #
                  map (decoded_text lib env (key_after env st)) rest)"
proof -
  have "\<forall>m\<in>set (thread_messages store me other). findById users (userId m) \<noteq> None"
    using assms by (auto simp: thread_messages_def between_def)
  from decrypt_all_present [OF this, of lib env me st] assms(2) show ?thesis
    by (auto simp: getMessages_def)
qed

theorem getMessages_placeholder_witness:
  "findById [alice, bob] 1 \<noteq> None \<and> findById [alice, bob] 2 = Some bob \<and>
   (\<exists>views st'.
      getMessages sample_lib None [alice, bob]
          [direct_message 5 1 2 ''garbage'' 10, direct_message 6 2 1 hi_wire 20]
          initial_key_state 1 2 =
        (Success 200 (views, bob),
         [direct_message 5 1 2 ''garbage'' 10, direct_message 6 2 1 hi_wire 20], st') \<and>
      map view_id views =
        map message_id
          (thread_messages
             [direct_message 5 1 2 ''garbage'' 10, direct_message 6 2 1 hi_wire 20] 1 2))"
  using getMessages_placeholder [OF sample_users_present, of sample_lib None
      "[direct_message 5 1 2 ''garbage'' 10, direct_message 6 2 1 hi_wire 20]"
      initial_key_state]
    sample_users_present
  by blast

text \<open>A thread with one corrupt record, computed: the corrupt message shows the
  placeholder, the other its plaintext.\<close>

lemma getMessages_example:
  "(case getMessages sample_lib None [alice, bob]
           [direct_message 5 1 2 ''garbage'' 10, direct_message 6 2 1 hi_wire 20]
           initial_key_state 1 2 of
      (Success code (views, u), store', st') \<Rightarrow>
        (code, map view_text views, store')
    | (Failure code e, store', st') \<Rightarrow> (code, [e], store')) =
   (200, [placeholder, ''hi''],
    [direct_message 5 1 2 ''garbage'' 10, direct_message 6 2 1 hi_wire 20])"
  by code_simp

subsection \<open>Sending\<close>

text \<open>
  C4, as stated: the plaintext echoed to the sender is the original input. It is the
  trimmed input: for the text \<^verbatim>\<open>" hi "\<close> the response carries \<^verbatim>\<open>"hi"\<close>.
\<close>

theorem sendMessage_echo_trimmed:
  "fst (sendMessage sample_lib None [alice, bob] [] initial_key_state 1 2 (Some '' hi '')
          (replicate 16 0) 7 100) =
     Success 201
       \<lparr>view_id = 7, view_text = ''hi'', view_userId = Some alice, view_timestamp = 100,
        view_readBy = [1], view_edited = False, view_editedAt = None,
        isFromCurrentUser = True, view_rest = Some (Direct, Some 2)\<rparr>"
  by code_simp

text \<open>
  C4, amended. A request without text, or whose text is empty or whitespace-only, is
  rejected with status 400 and leaves the store as it was. Every successful request has
  status 201, echoes the trimmed input whatever the library's decryption would return,
  and has appended one record to the store: a direct message from the sender to the
  recipient whose text is the encoder's output for the trimmed input and whose \<open>readBy\<close>
  is the sender alone. A request with other text succeeds when the recipient exists,
  the key resolves, the library meets its contract, the IV has 16 bytes and the new id is
  unused; the stored text then has the wire shape and decodes to the trimmed input.
\<close>

theorem sendMessage_contract:
  "sendMessage lib env users store st sender recipient None iv new_id now =
     (Failure 400 ''Message text is required'', store, st) \<and>
   (whitespace_only t \<longrightarrow>
      sendMessage lib env users store st sender recipient (Some t) iv new_id now =
        (Failure 400 ''Message text is required'', store, st)) \<and>
   (\<forall>code view store' st'.
      sendMessage lib env users store st sender recipient (Some t) iv new_id now =
        (Success code view, store', st') \<longrightarrow>
      code = 201 \<and> view_text view = trim t \<and>
      (\<exists>wire. fst (encryptMessage lib env st iv (trim t)) = Inr wire \<and>
         store' = store @
           [\<lparr>message_id = new_id, messageType = Direct, userId = sender,
             recipientId = Some recipient, text' = wire, timestamp = now,
             readBy = [sender], edited = False, editedAt = None\<rparr>])) \<and>
   (\<not> whitespace_only t \<and> node_contract lib \<and> key_usable env st \<and> length iv = IV_LENGTH \<and>
    findById users recipient \<noteq> None \<and> new_id \<notin> set (map message_id store) \<longrightarrow>
      (\<exists>wire view st'.
         sendMessage lib env users store st sender recipient (Some t) iv new_id now =
           (Success 201 view,
            store @
              [\<lparr>message_id = new_id, messageType = Direct, userId = sender,
                recipientId = Some recipient, text' = wire, timestamp = now,
                readBy = [sender], edited = False, editedAt = None\<rparr>],
            st') \<and>
         wire_shape wire \<and> decryptMessage lib env st' wire = (Inr (trim t), st')))"
proof -
  let ?msg = "\<lambda>wire. \<lparr>message_id = new_id, messageType = Direct, userId = sender,
             recipientId = Some recipient, text' = wire, timestamp = now,
             readBy = [sender], edited = False, editedAt = None\<rparr>"
  let ?send = "sendMessage lib env users store st sender recipient (Some t) iv new_id now"
  have n: "sendMessage lib env users store st sender recipient None iv new_id now =
     (Failure 400 ''Message text is required'', store, st)"
    by (simp add: sendMessage_def)
  have a: "?send = (Failure 400 ''Message text is required'', store, st)"
    if "whitespace_only t"
  proof -
    from that have "trim t = []" by (simp add: trim_empty_iff)
    then show ?thesis by (simp add: sendMessage_def)
  qed
  have b: "code = 201 \<and> view_text view = trim t \<and>
      (\<exists>wire. fst (encryptMessage lib env st iv (trim t)) = Inr wire \<and>
         store' = store @ [?msg wire])"
    if "?send = (Success code view, store', st')" for code view store' st'
    using that
    by (auto simp: sendMessage_def save_def Let_def
        split: if_splits option.splits prod.splits sum.splits)
  have c: "\<exists>wire view st'. ?send = (Success 201 view, store @ [?msg wire], st') \<and>
         wire_shape wire \<and> decryptMessage lib env st' wire = (Inr (trim t), st')"
    if h: "\<not> whitespace_only t \<and> node_contract lib \<and> key_usable env st \<and>
      length iv = IV_LENGTH \<and> findById users recipient \<noteq> None \<and>
      new_id \<notin> set (map message_id store)"
  proof -
    from h have nb1: "trim t \<noteq> []"
      by (simp add: trim_empty_iff)
    with trim_Nil have nb2: "t \<noteq> []" by auto
    from h obtain r where r: "findById users recipient = Some r" by auto
    from h obtain k st' where k: "getEncryptionKey env st = (Inr k, st')"
        "length k = 32" "ENCRYPTION_KEY st' = Some k"
      using getEncryptionKey_usable by blast
    from h k(2) have "\<exists>w. encrypt_with lib k iv (trim t) = Inr w \<and>
        decrypt_with lib k w = Inr (trim t)"
      by (intro decrypt_encrypt_with) simp_all
    then obtain wire where e: "encrypt_with lib k iv (trim t) = Inr wire"
      and d: "decrypt_with lib k wire = Inr (trim t)"
      by blast
    have enc: "encryptMessage lib env st iv (trim t) = (Inr wire, st')"
      by (simp add: encryptMessage_def k e)
    have dec: "decryptMessage lib env st' wire = (Inr (trim t), st')"
      by (simp add: decryptMessage_def getEncryptionKey_loaded [OF k(3)] d)
    have shape: "wire_shape wire"
    proof -
      from e obtain c where "wire = toString_hex iv @ CHR '':'' # toString_hex c"
        by (auto simp: encrypt_with_def Let_def split: option.splits)
      with h show ?thesis by (simp add: wire_shape_encoded)
    qed
    have fresh: "\<forall>m\<in>set store. message_id m \<noteq> new_id"
      using h by auto
    have found: "find (\<lambda>m. message_id m = new_id) (store @ [?msg wire]) = Some (?msg wire)"
      using fresh by (induction store) simp_all
    have "\<exists>view. ?send = (Success 201 view, store @ [?msg wire], st')"
      using nb1 nb2 r enc h found by (simp add: sendMessage_def save_def Let_def)
    with shape dec show ?thesis by blast
  qed
  from n a b c show ?thesis by blast
qed

theorem sendMessage_contract_witness:
  "whitespace_only ''  '' \<and>
   sendMessage sample_lib None [alice, bob] [] initial_key_state 1 2 (Some ''  '')
       (replicate 16 0) 7 100 =
     (Failure 400 ''Message text is required'', [], initial_key_state) \<and>
   \<not> whitespace_only '' hi '' \<and> node_contract sample_lib \<and>
   key_usable None initial_key_state \<and> length (replicate 16 0 :: buffer) = IV_LENGTH \<and>
   findById [alice, bob] 2 \<noteq> None \<and> 7 \<notin> set (map message_id []) \<and>
   (\<exists>wire view st'.
      sendMessage sample_lib None [alice, bob] [] initial_key_state 1 2 (Some '' hi '')
          (replicate 16 0) 7 100 =
        (Success 201 view,
         [] @ [\<lparr>message_id = 7, messageType = Direct, userId = 1, recipientId = Some 2,
                text' = wire, timestamp = 100, readBy = [1], edited = False,
                editedAt = None\<rparr>],
         st') \<and>
      wire_shape wire \<and> decryptMessage sample_lib None st' wire = (Inr (trim '' hi ''), st'))"
proof -
  have "trim ''  '' = []" by code_simp
  then have w1: "whitespace_only ''  ''"
    by (simp add: trim_empty_iff)
  have w2: "\<not> whitespace_only '' hi ''"
    using trim_empty_iff [of "'' hi ''"] by (simp add: trim_example)
  have r: "findById [alice, bob] 2 \<noteq> None"
    by (simp add: findById_def alice_def bob_def)
  have f: "(7::nat) \<notin> set (map message_id [])" by simp
  note t1 = sendMessage_contract [of sample_lib None "[alice, bob]" "[]" initial_key_state
      1 2 "replicate 16 0" 7 100 "''  ''"]
  note t2 = sendMessage_contract [of sample_lib None "[alice, bob]" "[]" initial_key_state
      1 2 "replicate 16 0" 7 100 "'' hi ''"]
  from t1 w1 have rej: "sendMessage sample_lib None [alice, bob] [] initial_key_state 1 2
      (Some ''  '') (replicate 16 0) 7 100 =
     (Failure 400 ''Message text is required'', [], initial_key_state)"
    by blast
  from t2 w2 sample_contract key_usable_initial sample_iv_length r f
  have "\<exists>wire view st'.
      sendMessage sample_lib None [alice, bob] [] initial_key_state 1 2 (Some '' hi '')
          (replicate 16 0) 7 100 =
        (Success 201 view,
         [] @ [\<lparr>message_id = 7, messageType = Direct, userId = 1, recipientId = Some 2,
                text' = wire, timestamp = 100, readBy = [1], edited = False,
                editedAt = None\<rparr>],
         st') \<and>
      wire_shape wire \<and> decryptMessage sample_lib None st' wire = (Inr (trim '' hi ''), st')"
    by blast
  with w1 rej w2 sample_contract key_usable_initial sample_iv_length r f
  show ?thesis by blast
qed

subsection \<open>Marking read and deleting\<close>

lemma deleteOne_unique:
  "distinct (map f xs) \<Longrightarrow> deleteOne (\<lambda>m. f m = i) xs = filter (\<lambda>m. f m \<noteq> i) xs"
proof (induction xs)
  case Nil
  show ?case by simp
next
  case (Cons x xs)
  show ?case
  proof (cases "f x = i")
    case True
    with Cons.prems have "i \<notin> f ` set xs" by simp
    then have "\<forall>m\<in>set xs. f m \<noteq> i" by blast
    then have "filter (\<lambda>m. f m \<noteq> i) xs = xs" by simp
    with True show ?thesis by simp
  next
    case False
    with Cons show ?thesis by simp
  qed
qed

lemma filter_unique_length:
  "distinct (map f xs) \<Longrightarrow> length (filter (\<lambda>m. f m = i \<and> P m) xs) \<le> 1"
proof (induction xs)
  case Nil
  show ?case by simp
next
  case (Cons x xs)
  show ?case
  proof (cases "f x = i")
    case True
    with Cons.prems have "i \<notin> f ` set xs" by simp
    then have "\<forall>m\<in>set xs. \<not> (f m = i \<and> P m)" by blast
    then have "filter (\<lambda>m. f m = i \<and> P m) xs = []" by simp
    then show ?thesis by simp
  next
    case False
    with Cons show ?thesis by simp
  qed
qed

lemma sample_store_distinct:
  "distinct (map message_id
     [direct_message 5 1 2 ''x'' 10, direct_message 6 2 1 ''y'' 20,
      (direct_message 7 1 2 ''z'' 30)\<lparr>messageType := Team\<rparr>])"
  by (simp add: direct_message_def)

text \<open>
  C8. In a store with one document per id, a delete request removes the message with the
  given id and answers 200 exactly when that message is a direct message sent by the
  requester. In every other case, whether no such message exists or it is not the
  requester's, the store is unchanged and the answer is the same 404 response.
\<close>

theorem deleteMessage_sender_only:
  assumes "distinct (map message_id store)"
  shows "deleteMessage store requester messageId =
           (if \<exists>m\<in>set store. message_id m = messageId \<and> messageType m = Direct \<and>
                               userId m = requester
            then (Success 200 messageId, filter (\<lambda>m. message_id m \<noteq> messageId) store)
            else (Failure 404 not_found_or_unauthorized, store))"
proof (cases "find (\<lambda>m. message_id m = messageId \<and> messageType m = Direct \<and>
                      userId m = requester) store")
  case None
  then have "\<not> (\<exists>m\<in>set store. message_id m = messageId \<and> messageType m = Direct \<and>
               userId m = requester)"
    by (auto simp: find_None_iff)
  with None show ?thesis
    by (simp add: deleteMessage_def)
next
  case (Some msg)
  then have "\<exists>m\<in>set store. message_id m = messageId \<and> messageType m = Direct \<and>
               userId m = requester"
    by (auto simp: find_Some_iff)
  with Some deleteOne_unique [OF assms, of messageId] show ?thesis
    by (simp add: deleteMessage_def)
qed

theorem deleteMessage_sender_only_witness:
  "distinct (map message_id
     [direct_message 5 1 2 ''x'' 10, direct_message 6 2 1 ''y'' 20,
      (direct_message 7 1 2 ''z'' 30)\<lparr>messageType := Team\<rparr>]) \<and>
   deleteMessage
     [direct_message 5 1 2 ''x'' 10, direct_message 6 2 1 ''y'' 20,
      (direct_message 7 1 2 ''z'' 30)\<lparr>messageType := Team\<rparr>] 1 5 =
     (Success 200 5,
      [direct_message 6 2 1 ''y'' 20, (direct_message 7 1 2 ''z'' 30)\<lparr>messageType := Team\<rparr>]) \<and>
   deleteMessage
     [direct_message 5 1 2 ''x'' 10, direct_message 6 2 1 ''y'' 20,
      (direct_message 7 1 2 ''z'' 30)\<lparr>messageType := Team\<rparr>] 2 5 =
     (Failure 404 not_found_or_unauthorized,
      [direct_message 5 1 2 ''x'' 10, direct_message 6 2 1 ''y'' 20,
       (direct_message 7 1 2 ''z'' 30)\<lparr>messageType := Team\<rparr>]) \<and>
   deleteMessage
     [direct_message 5 1 2 ''x'' 10, direct_message 6 2 1 ''y'' 20,
      (direct_message 7 1 2 ''z'' 30)\<lparr>messageType := Team\<rparr>] 1 9 =
     (Failure 404 not_found_or_unauthorized,
      [direct_message 5 1 2 ''x'' 10, direct_message 6 2 1 ''y'' 20,
       (direct_message 7 1 2 ''z'' 30)\<lparr>messageType := Team\<rparr>])"
  using deleteMessage_sender_only [OF sample_store_distinct, of 1 5]
    deleteMessage_sender_only [OF sample_store_distinct, of 2 5]
    deleteMessage_sender_only [OF sample_store_distinct, of 1 9]
    sample_store_distinct
  by (simp add: direct_message_def)

text \<open>
  C9. Marking read appends the reader to \<open>readBy\<close> of exactly the direct messages from the
  other user to the reader that lack the reader, leaves every other message as it is, and
  reports their number. Marking read again from the resulting store changes nothing and
  reports 0.
\<close>

theorem markRead_idempotent:
  "markRead store reader other =
     (Success 200 (length (filter (unread_from other reader) store)),
      map (\<lambda>m. if unread_from other reader m then m\<lparr>readBy := readBy m @ [reader]\<rparr> else m)
        store) \<and>
   markRead (snd (markRead store reader other)) reader other =
     (Success 200 0, snd (markRead store reader other))"
proof -
  let ?q = "unread_from other reader"
  let ?upd = "\<lambda>m. m\<lparr>readBy := addToSet reader (readBy m)\<rparr>"
  let ?store' = "map (\<lambda>m. if ?q m then m\<lparr>readBy := readBy m @ [reader]\<rparr> else m) store"
  have upd: "?upd m = m\<lparr>readBy := readBy m @ [reader]\<rparr> \<and> ?upd m \<noteq> m" if "?q m" for m
  proof -
    from that have "reader \<notin> set (readBy m)" by (simp add: unread_from_def)
    then have "addToSet reader (readBy m) = readBy m @ [reader]" by (simp add: addToSet_def)
    moreover have "m\<lparr>readBy := readBy m @ [reader]\<rparr> \<noteq> m"
    proof
      assume "m\<lparr>readBy := readBy m @ [reader]\<rparr> = m"
      then have "readBy (m\<lparr>readBy := readBy m @ [reader]\<rparr>) = readBy m" by simp
      then show False by simp
    qed
    ultimately show ?thesis by simp
  qed
  have first: "markRead store reader other = (Success 200 (length (filter ?q store)), ?store')"
  proof -
    have "filter (\<lambda>m. ?q m \<and> ?upd m \<noteq> m) store = filter ?q store"
      using upd by (intro filter_cong) auto
    moreover have "map (\<lambda>m. if ?q m then ?upd m else m) store = ?store'"
      using upd by (intro map_cong) auto
    ultimately show ?thesis by (simp add: markRead_def updateMany_def)
  qed
  have none: "\<not> ?q m" if "m \<in> set ?store'" for m
  proof -
    from that obtain m0 where m0: "m0 \<in> set store"
        "m = (if ?q m0 then m0\<lparr>readBy := readBy m0 @ [reader]\<rparr> else m0)"
      by auto
    show ?thesis
    proof (cases "?q m0")
      case True
      with m0 have "reader \<in> set (readBy m)" by simp
      then show ?thesis by (simp add: unread_from_def)
    next
      case False
      with m0 show ?thesis by simp
    qed
  qed
  have f0: "filter (\<lambda>m. ?q m \<and> ?upd m \<noteq> m) ?store' = []"
    using none by (simp only: filter_empty_conv) blast
  have m0: "map (\<lambda>m. if ?q m then ?upd m else m) ?store' = ?store'"
  proof (rule map_idI)
    fix m assume "m \<in> set ?store'"
    from none [OF this] show "(if ?q m then ?upd m else m) = m" by simp
  qed
  have "markRead ?store' reader other = (Success 200 0, ?store')"
    unfolding markRead_def updateMany_def by (simp only: f0 m0 list.size prod.case)
  with first show ?thesis by simp
qed

theorem markRead_idempotent_witness:
  "markRead [direct_message 5 1 2 ''x'' 10, direct_message 6 2 1 ''y'' 20] 2 1 =
     (Success 200 1,
      [(direct_message 5 1 2 ''x'' 10)\<lparr>readBy := [1, 2]\<rparr>, direct_message 6 2 1 ''y'' 20]) \<and>
   markRead
     (snd (markRead [direct_message 5 1 2 ''x'' 10, direct_message 6 2 1 ''y'' 20] 2 1)) 2 1 =
     (Success 200 0,
      snd (markRead [direct_message 5 1 2 ''x'' 10, direct_message 6 2 1 ''y'' 20] 2 1))"
proof -
  note t = markRead_idempotent
    [of "[direct_message 5 1 2 ''x'' 10, direct_message 6 2 1 ''y'' 20]" 2 1]
  from t have first:
    "markRead [direct_message 5 1 2 ''x'' 10, direct_message 6 2 1 ''y'' 20] 2 1 =
       (Success 200 1,
        [(direct_message 5 1 2 ''x'' 10)\<lparr>readBy := [1, 2]\<rparr>, direct_message 6 2 1 ''y'' 20])"
    by (simp add: direct_message_def unread_from_def)
  from t have again:
    "markRead
       (snd (markRead [direct_message 5 1 2 ''x'' 10, direct_message 6 2 1 ''y'' 20] 2 1)) 2 1 =
     (Success 200 0,
      snd (markRead [direct_message 5 1 2 ''x'' 10, direct_message 6 2 1 ''y'' 20] 2 1))"
    by (rule conjunct2)
  from first again show ?thesis by (rule conjI)
qed

text \<open>
  C10. In a store with one document per id, what a delete request leaves is the store
  without the direct message of the requester with the given id, which is at most one
  document; what a clear request leaves is the store without the direct messages between
  the requester and the named user, in either direction. Every other document, team
  messages among them, stays, in its place.
\<close>

theorem delete_frame:
  assumes "distinct (map message_id store)"
  shows "snd (deleteMessage store requester messageId) =
           filter (\<lambda>m. \<not> (message_id m = messageId \<and> messageType m = Direct \<and>
                             userId m = requester)) store \<and>
         length store \<le> Suc (length (snd (deleteMessage store requester messageId))) \<and>
         snd (clearChat store requester other) =
           filter (\<lambda>m. \<not> (messageType m = Direct \<and>
                            (userId m = requester \<and> recipientId m = Some other \<or>
                             userId m = other \<and> recipientId m = Some requester))) store"
proof -
  let ?q = "\<lambda>m. message_id m = messageId \<and> messageType m = Direct \<and> userId m = requester"
  have d: "snd (deleteMessage store requester messageId) = filter (\<lambda>m. \<not> ?q m) store"
  proof (cases "find ?q store")
    case None
    then have "\<forall>m\<in>set store. \<not> ?q m" by (simp add: find_None_iff)
    then have "filter (\<lambda>m. \<not> ?q m) store = store" by simp
    with None show ?thesis by (simp add: deleteMessage_def)
  next
    case (Some msg)
    then have msg: "msg \<in> set store" "?q msg" by (auto simp: find_Some_iff)
    have "m = msg" if "m \<in> set store" "message_id m = messageId" for m
      using that msg assms by (auto simp: distinct_map inj_on_def)
    then have "filter (\<lambda>m. message_id m \<noteq> messageId) store = filter (\<lambda>m. \<not> ?q m) store"
      using msg by (intro filter_cong) auto
    with Some deleteOne_unique [OF assms, of messageId] show ?thesis
      by (simp add: deleteMessage_def)
  qed
  have "length (filter ?q store) \<le> 1"
    using filter_unique_length [OF assms, of messageId
        "\<lambda>m. messageType m = Direct \<and> userId m = requester"]
    by simp
  moreover have "length store = length (filter ?q store) + length (filter (\<lambda>m. \<not> ?q m) store)"
    by (rule sum_length_filter_compl [symmetric])
  ultimately have l: "length store \<le> Suc (length (snd (deleteMessage store requester messageId)))"
    using d by simp
  have c: "snd (clearChat store requester other) =
           filter (\<lambda>m. \<not> (messageType m = Direct \<and>
                            (userId m = requester \<and> recipientId m = Some other \<or>
                             userId m = other \<and> recipientId m = Some requester))) store"
    by (simp add: clearChat_def deleteMany_def between_def)
  from d l c show ?thesis by (intro conjI)
qed

theorem delete_frame_witness:
  "distinct (map message_id
     [direct_message 5 1 2 ''x'' 10, direct_message 6 2 1 ''y'' 20,
      (direct_message 7 1 2 ''z'' 30)\<lparr>messageType := Team\<rparr>]) \<and>
   snd (deleteMessage
     [direct_message 5 1 2 ''x'' 10, direct_message 6 2 1 ''y'' 20,
      (direct_message 7 1 2 ''z'' 30)\<lparr>messageType := Team\<rparr>] 1 7) =
     [direct_message 5 1 2 ''x'' 10, direct_message 6 2 1 ''y'' 20,
      (direct_message 7 1 2 ''z'' 30)\<lparr>messageType := Team\<rparr>] \<and>
   snd (clearChat
     [direct_message 5 1 2 ''x'' 10, direct_message 6 2 1 ''y'' 20,
      (direct_message 7 1 2 ''z'' 30)\<lparr>messageType := Team\<rparr>] 1 2) =
     [(direct_message 7 1 2 ''z'' 30)\<lparr>messageType := Team\<rparr>]"
  using delete_frame [OF sample_store_distinct, of 1 7 2] sample_store_distinct
  by (simp add: direct_message_def)

text \<open>The responses of the two delete requests on that store, computed.\<close>

lemma clearChat_example:
  "clearChat
     [direct_message 5 1 2 ''x'' 10, direct_message 6 2 1 ''y'' 20,
      (direct_message 7 1 2 ''z'' 30)\<lparr>messageType := Team\<rparr>] 1 2 =
     (Success 200 (2, ''Successfully cleared 2 message(s)''),
      [(direct_message 7 1 2 ''z'' 30)\<lparr>messageType := Team\<rparr>])"
  by code_simp

end
